theory Spec2Isabelle
  imports Main
begin

section \<open>Text and the regular-expression fragment of the dictionary\<close>

text \<open>
  A JavaScript string is modelled by the sequence of its code points, which is how a
  pattern with the \<open>u\<close> flag reads it.  \<open>ascii\<close> writes a text of the Basic Latin
  block from an Isabelle string; other texts are written as lists of code points.
\<close>

type_synonym codepoint = nat
type_synonym jstring = "codepoint list"

definition ascii :: "string \<Rightarrow> jstring" where
  "ascii s = map of_char s"

text \<open>
  What the pattern engine knows about characters is not part of the repository: the
  classes \<open>\p{L}\<close> and \<open>\p{N}\<close> and the canonicalisation used by the \<open>i\<close> flag
  (simple case folding under \<open>u\<close>) are parameters of the model.
\<close>

record unicode =
  isLetter :: "codepoint \<Rightarrow> bool"
  isNumber :: "codepoint \<Rightarrow> bool"
  canonicalize :: "codepoint \<Rightarrow> codepoint"

text \<open>The class \<open>[\p{L}\p{N}_]\<close> of the two lookarounds.\<close>

definition wordCharacter :: "unicode \<Rightarrow> codepoint \<Rightarrow> bool" where
  "wordCharacter U c \<longleftrightarrow> isLetter U c \<or> isNumber U c \<or> c = 0x5F"

text \<open>
  The characters of the class \<open>[.*+?^${}()|[\]\\]\<close> in \<open>compileDictionary\<close>:
  \<open>. * + ? ^ $ { } ( ) | [ ] \\<close>.
\<close>

definition syntaxCharacters :: "codepoint list" where
  "syntaxCharacters =
     [0x2E, 0x2A, 0x2B, 0x3F, 0x5E, 0x24, 0x7B, 0x7D, 0x28, 0x29, 0x7C, 0x5B, 0x5D, 0x5C]"

text \<open>\<open>english.replace(/[.*+?^${}()|[\]\\]/g, "\\$&")\<close>: a backslash in front of each of them.\<close>

definition escaped :: "jstring \<Rightarrow> jstring" where
  "escaped english =
     concat (map (\<lambda>c. if c \<in> set syntaxCharacters then [0x5C, c] else [c]) english)"

text \<open>
  The patterns built by \<open>compileDictionary\<close> consist of a negative lookbehind for a word
  character, the escaped phrase and a negative lookahead for a word character.
\<close>

datatype atom = NegLookbehindWord | Character codepoint | NegLookaheadWord

text \<open>
  How the \<open>RegExp\<close> constructor reads the middle part of the pattern source under the
  \<open>u\<close> flag: a backslash followed by a syntax character (or \<open>/\<close>) is that character, any
  other character that is not a syntax character stands for itself.  Everything else
  (a bare syntax character, another escape, a trailing backslash) is outside this
  fragment: the result is \<open>None\<close>, as when the constructor throws.
\<close>

fun readCharacters :: "jstring \<Rightarrow> atom list option" where
  "readCharacters [] = Some []"
| "readCharacters [c] =
     (if c \<in> set syntaxCharacters then None else Some [Character c])"
| "readCharacters (c # d # cs) =
     (if c = 0x5C then
        (if d \<in> set syntaxCharacters \<or> d = 0x2F
         then map_option ((#) (Character d)) (readCharacters cs) else None)
      else if c \<in> set syntaxCharacters then None
      else map_option ((#) (Character c)) (readCharacters (d # cs)))"

text \<open>
  \<open>new RegExp(`(?<![\\p{L}\\p{N}_])${escaped}(?![\\p{L}\\p{N}_])`, "giu")\<close>, given the
  text of \<open>escaped\<close>.
\<close>

definition newRegExp :: "jstring \<Rightarrow> atom list option" where
  "newRegExp source =
     map_option (\<lambda>cs. NegLookbehindWord # cs @ [NegLookaheadWord]) (readCharacters source)"

text \<open>
  Matching a pattern at one position of a string: \<open>prior\<close> is the string up to the
  position, \<open>rest\<close> what follows.  The result is the number of code points matched.  With
  the \<open>i\<close> flag a character matches when the canonical forms agree.
\<close>

fun matchAtoms :: "unicode \<Rightarrow> atom list \<Rightarrow> jstring \<Rightarrow> jstring \<Rightarrow> nat option" where
  "matchAtoms U [] prior rest = Some 0"
| "matchAtoms U (NegLookbehindWord # as) prior rest =
     (if prior \<noteq> [] \<and> wordCharacter U (last prior) then None
      else matchAtoms U as prior rest)"
| "matchAtoms U (NegLookaheadWord # as) prior rest =
     (if rest \<noteq> [] \<and> wordCharacter U (hd rest) then None
      else matchAtoms U as prior rest)"
| "matchAtoms U (Character c # as) prior rest =
     (case rest of
        [] \<Rightarrow> None
      | x # xs \<Rightarrow>
          if canonicalize U x = canonicalize U c
          then map_option Suc (matchAtoms U as (prior @ [x]) xs) else None)"

record compiledPattern =
  pattern :: "atom list"
  replacement :: jstring

text \<open>
  The replacement text of \<open>String.prototype.replace\<close> is a template: \<open>$$\<close> is a dollar
  sign, \<open>$&\<close> the matched text, \<open>$`\<close> the string in front of the match, \<open>$'\<close> the string
  behind it.  The patterns have no capture groups, so every other \<open>$\<close> stands for itself.
\<close>

fun getSubstitution :: "jstring \<Rightarrow> jstring \<Rightarrow> jstring \<Rightarrow> jstring \<Rightarrow> jstring" where
  "getSubstitution matched prior rest [] = []"
| "getSubstitution matched prior rest [c] = [c]"
| "getSubstitution matched prior rest (c # d # template) =
     (if c = 0x24 \<and> d = 0x24 then 0x24 # getSubstitution matched prior rest template
      else if c = 0x24 \<and> d = 0x26 then matched @ getSubstitution matched prior rest template
      else if c = 0x24 \<and> d = 0x60 then prior @ getSubstitution matched prior rest template
      else if c = 0x24 \<and> d = 0x27 then rest @ getSubstitution matched prior rest template
      else c # getSubstitution matched prior rest (d # template))"

text \<open>
  \<open>output.replace(pattern, replacement)\<close> with a global pattern: the string is scanned
  from the left, each match is replaced and the scan goes on behind it (one code point
  further behind an empty match); what lies between matches is copied.
\<close>

function replaceFrom :: "unicode \<Rightarrow> compiledPattern \<Rightarrow> jstring \<Rightarrow> jstring \<Rightarrow> jstring" where
  "replaceFrom U p prior rest =
     (case matchAtoms U (pattern p) prior rest of
        None \<Rightarrow>
          (case rest of
             [] \<Rightarrow> []
           | c # cs \<Rightarrow> c # replaceFrom U p (prior @ [c]) cs)
      | Some n \<Rightarrow>
          getSubstitution (take n rest) prior (drop n rest) (replacement p) @
          (if n = 0 then
             (case rest of
                [] \<Rightarrow> []
              | c # cs \<Rightarrow> c # replaceFrom U p (prior @ [c]) cs)
           else replaceFrom U p (prior @ take n rest) (drop n rest)))"
  by pat_completeness auto
termination
proof (relation "measure (\<lambda>(U, p, prior, rest). length rest)")
  have bound: "n \<le> length rest" if "matchAtoms U as prior rest = Some n"
    for U as prior rest n
    using that
  proof (induction U as prior rest arbitrary: n rule: matchAtoms.induct)
    case (4 U c as prior rest)
    then show ?case
      by (cases rest) (auto split: if_splits)
  qed (auto split: if_splits)
  fix U :: unicode and p :: compiledPattern and prior rest :: jstring and n :: nat
  assume m: "matchAtoms U (pattern p) prior rest = Some n" and n: "n \<noteq> 0"
  from bound [OF m] n have "rest \<noteq> []" by auto
  with n show "((U, p, prior @ take n rest, drop n rest), (U, p, prior, rest))
      \<in> measure (\<lambda>(U, p, prior, rest). length rest)"
    by simp
qed auto

definition replace :: "unicode \<Rightarrow> compiledPattern \<Rightarrow> jstring \<Rightarrow> jstring" where
  "replace U p output = replaceFrom U p [] output"

subsection \<open>The dictionary pass\<close>

text \<open>
  \<open>GITHUB_JA_DICTIONARY_SORTED\<close> is a constant of another file: the dictionary is a
  parameter, a list of pairs (english, japanese).  \<open>compileDictionary\<close> keeps its result
  in \<open>compiledDictionaryPatterns\<close>; the dictionary never changes, so every call returns
  what the first one computed.
\<close>

type_synonym dictionary = "(jstring \<times> jstring) list"

definition compileEntry :: "jstring \<times> jstring \<Rightarrow> compiledPattern option" where
  "compileEntry entry =
     (case entry of (english, japanese) \<Rightarrow>
        map_option (\<lambda>atoms. \<lparr>pattern = atoms, replacement = japanese\<rparr>)
          (newRegExp (escaped english)))"

definition compileDictionary :: "dictionary \<Rightarrow> compiledPattern list option" where
  "compileDictionary dict = those (map compileEntry dict)"

definition translateByDictionary :: "unicode \<Rightarrow> dictionary \<Rightarrow> jstring \<Rightarrow> jstring option" where
  "translateByDictionary U dict txt =
     map_option (\<lambda>patterns. foldl (\<lambda>output p. replace U p output) txt patterns)
       (compileDictionary dict)"

text \<open>
  An excerpt of the Unicode data for the examples: Basic Latin, and the Japanese blocks
  (hiragana, katakana with the prolonged sound mark, the unified ideographs), whose
  characters are letters without case.
\<close>

definition basicLatinJapanese :: unicode where
  "basicLatinJapanese =
     \<lparr>isLetter = (\<lambda>c. (0x41 \<le> c \<and> c \<le> 0x5A) \<or> (0x61 \<le> c \<and> c \<le> 0x7A)
                  \<or> (0x3041 \<le> c \<and> c \<le> 0x3096) \<or> (0x30A1 \<le> c \<and> c \<le> 0x30FA)
                  \<or> c = 0x30FC \<or> (0x4E00 \<le> c \<and> c \<le> 0x9FFF)),
      isNumber = (\<lambda>c. 0x30 \<le> c \<and> c \<le> 0x39),
      canonicalize = (\<lambda>c. if 0x41 \<le> c \<and> c \<le> 0x5A then c + 0x20 else c)\<rparr>"


text \<open>
  An engine agrees with the excerpt when its character data are those of the excerpt on
  Basic Latin and the Japanese blocks; what it says about other characters is open.
\<close>

definition knownCharacter :: "codepoint \<Rightarrow> bool" where
  "knownCharacter c \<longleftrightarrow>
     c < 0x80 \<or> (0x3041 \<le> c \<and> c \<le> 0x3096) \<or> (0x30A1 \<le> c \<and> c \<le> 0x30FA)
     \<or> c = 0x30FC \<or> (0x4E00 \<le> c \<and> c \<le> 0x9FFF)"

definition agreesWithExcerpt :: "unicode \<Rightarrow> bool" where
  "agreesWithExcerpt U \<longleftrightarrow>
     (\<forall>c. knownCharacter c \<longrightarrow>
        isLetter U c = isLetter basicLatinJapanese c
        \<and> isNumber U c = isNumber basicLatinJapanese c
        \<and> canonicalize U c = canonicalize basicLatinJapanese c)"

text \<open>The characters of a dictionary: those of its phrases and of their replacements.\<close>

definition dictionaryCharacters :: "dictionary \<Rightarrow> codepoint list" where
  "dictionaryCharacters dict = concat (map (\<lambda>(english, japanese). english @ japanese) dict)"

section \<open>The document\<close>

text \<open>
  An element with what the code reads of it: its identity, its tag name in lower case
  (\<open>tagName.toLowerCase()\<close>), the tokens of its class attribute and its other
  attributes.  A text node has an identity, which is what the WeakSet holds, and its
  \<open>nodeValue\<close>.  Nodes of other kinds are shown to none of the tree walkers
  (\<open>NodeFilter.SHOW_TEXT\<close>) and left out.
\<close>

record element =
  elementId :: nat
  tagName :: string
  classList :: "string list"
  attributes :: "(string \<times> jstring) list"

datatype node = TextNode nat jstring | ElementNode element "node list"

text \<open>
  The document: the root element, its children up to \<open>document.body\<close>, the body
  element with its children (if there is one), and the root's children behind the body.
\<close>

record document =
  documentElement :: element
  beforeBody :: "node list"
  body :: "(element \<times> node list) option"
  afterBody :: "node list"

definition getAttribute :: "element \<Rightarrow> string \<Rightarrow> jstring option" where
  "getAttribute e name = map_of (attributes e) name"

definition hasAttribute :: "element \<Rightarrow> string \<Rightarrow> bool" where
  "hasAttribute e name \<longleftrightarrow> getAttribute e name \<noteq> None"

definition setAttribute :: "string \<Rightarrow> jstring \<Rightarrow> element \<Rightarrow> element" where
  "setAttribute name v e =
     e\<lparr>attributes :=
          (if hasAttribute e name
           then map (\<lambda>(n, old). if n = name then (n, v) else (n, old)) (attributes e)
           else attributes e @ [(name, v)])\<rparr>"

subsection \<open>Which elements are skipped\<close>

definition skippedTags :: "string list" where
  "skippedTags = [''code'', ''pre'', ''kbd'', ''samp'', ''var'', ''script'', ''style'', ''noscript'']"

definition codeRegionClasses :: "string list" where
  "codeRegionClasses =
     [''blob-code'', ''highlight'', ''diff-table'', ''CodeMirror'', ''cm-editor'',
      ''react-code-viewer'', ''js-code-block-container'']"

text \<open>
  \<open>shouldSkipElement\<close> on an element given with its ancestors: the list starts with the
  element and goes up to the root, so \<open>closest\<close> looks for a member of the list.  The
  empty list stands for no element.
\<close>

definition shouldSkipElement :: "element list \<Rightarrow> bool" where
  "shouldSkipElement path =
     (case path of
        [] \<Rightarrow> True
      | e # ancestors \<Rightarrow>
          list_ex (\<lambda>a. hasAttribute a ''data-no-translate'') path
          \<or> tagName e \<in> set skippedTags
          \<or> list_ex (\<lambda>a. list_ex (\<lambda>c. c \<in> set codeRegionClasses) (classList a)) path
          \<or> list_ex (\<lambda>a. tagName a = ''svg'' \<or> tagName a = ''math'') path)"

text \<open>
  \<open>String.prototype.trim\<close> removes white space and line terminators at both ends.
\<close>

definition isWhiteSpace :: "codepoint \<Rightarrow> bool" where
  "isWhiteSpace c \<longleftrightarrow>
     c \<in> set [0x09, 0x0A, 0x0B, 0x0C, 0x0D, 0x20, 0xA0, 0x1680, 0x2028, 0x2029, 0x202F,
              0x205F, 0x3000, 0xFEFF]
     \<or> (0x2000 \<le> c \<and> c \<le> 0x200A)"

definition trim :: "jstring \<Rightarrow> jstring" where
  "trim s = rev (dropWhile isWhiteSpace (rev (dropWhile isWhiteSpace s)))"

subsection \<open>Walking the text nodes\<close>

datatype error = SyntaxError | TypeError | NetworkError | HttpError nat

text \<open>
  A \<open>TreeWalker\<close> over the text nodes below a root, with the loop that runs on it: the
  text nodes are visited in document order, \<open>visit\<close> is given the parent of the node
  with its ancestors, the node's identity and value and the state of the loop, and
  returns the node's new value and the new state, or the error thrown.  The first list
  is the root with its ancestors.
\<close>

fun walk :: "(element list \<Rightarrow> nat \<Rightarrow> jstring \<Rightarrow> 's \<Rightarrow> error + jstring \<times> 's) \<Rightarrow>
    element list \<Rightarrow> node \<Rightarrow> 's \<Rightarrow> error + node \<times> 's"
  and walkAll :: "(element list \<Rightarrow> nat \<Rightarrow> jstring \<Rightarrow> 's \<Rightarrow> error + jstring \<times> 's) \<Rightarrow>
    element list \<Rightarrow> node list \<Rightarrow> 's \<Rightarrow> error + node list \<times> 's"
where
  "walk visit path (TextNode i v) s =
     (case visit path i v s of
        Inl e \<Rightarrow> Inl e
      | Inr (v', s') \<Rightarrow> Inr (TextNode i v', s'))"
| "walk visit path (ElementNode e children) s =
     (case walkAll visit (e # path) children s of
        Inl err \<Rightarrow> Inl err
      | Inr (children', s') \<Rightarrow> Inr (ElementNode e children', s'))"
| "walkAll visit path [] s = Inr ([], s)"
| "walkAll visit path (n # ns) s =
     (case walk visit path n s of
        Inl e \<Rightarrow> Inl e
      | Inr (n', s') \<Rightarrow>
          (case walkAll visit path ns s' of
             Inl e \<Rightarrow> Inl e
           | Inr (ns', s'') \<Rightarrow> Inr (n' # ns', s'')))"

text \<open>The text nodes below a root in document order, each with its parent and ancestors.\<close>

fun textNodes :: "element list \<Rightarrow> node \<Rightarrow> (element list \<times> nat \<times> jstring) list"
  and textNodesAll :: "element list \<Rightarrow> node list \<Rightarrow> (element list \<times> nat \<times> jstring) list"
where
  "textNodes path (TextNode i v) = [(path, i, v)]"
| "textNodes path (ElementNode e children) = textNodesAll (e # path) children"
| "textNodesAll path [] = []"
| "textNodesAll path (n # ns) = textNodes path n @ textNodesAll path ns"


section \<open>The translator's state\<close>

record configuration =
  isEnabledOnGithub :: bool
  useTranslationApi :: bool
  translationProvider :: string
  translationApiKey :: jstring
  translationRegion :: jstring
  translationAggressiveness :: string

definition defaultConfiguration :: configuration where
  "defaultConfiguration =
     \<lparr>isEnabledOnGithub = True, useTranslationApi = False, translationProvider = ''None'',
      translationApiKey = [], translationRegion = [], translationAggressiveness = ''balanced''\<rparr>"

datatype message =
    InitializationFailed error
  | ApiCallFailed error
  | ApiKeyMissing
  | ApiError error

text \<open>
  The page as the content script sees it: the document and the script's global
  variables.  \<open>pendingAsyncTextsSet\<close> is a \<open>Set\<close>, which keeps its members in the
  order of insertion: a list without repetitions.  \<open>pendingAsyncTimer\<close> tells whether
  the timer of the batch is running.  \<open>attributeRequests\<close> are the calls of
  \<open>translateByOptionalApi\<close> that have not resolved yet, each with the element, the
  attribute name and the value its callback holds.  The last four fields tell which
  observers and listeners are registered.
\<close>

record page =
  document :: document
  currentConfiguration :: configuration
  translatedTextNodeWeakSet :: "nat set"
  pendingAsyncTextsSet :: "jstring list"
  pendingAsyncTimer :: bool
  attributeRequests :: "(nat \<times> string \<times> jstring) list"
  console :: "message list"
  domObserver :: bool
  pjaxListener :: bool
  keydownListener :: bool
  messageListener :: bool

definition setAdd :: "jstring \<Rightarrow> jstring list \<Rightarrow> jstring list" where
  "setAdd t s = (if t \<in> set s then s else s @ [t])"

subsection \<open>Text nodes\<close>

text \<open>The filter of the tree walker in \<open>translateTextNodesIn\<close>.\<close>

definition acceptNode :: "bool \<Rightarrow> nat set \<Rightarrow> element list \<Rightarrow> nat \<Rightarrow> jstring \<Rightarrow> bool" where
  "acceptNode onlyUntranslated weakSet path i nodeValue \<longleftrightarrow>
     nodeValue \<noteq> [] \<and> path \<noteq> [] \<and> \<not> shouldSkipElement path \<and> trim nodeValue \<noteq> []
     \<and> \<not> (onlyUntranslated \<and> i \<in> weakSet)"

definition translateByOptionalApiSyncPlaceholder ::
    "jstring \<Rightarrow> jstring list \<Rightarrow> jstring \<times> jstring list" where
  "translateByOptionalApiSyncPlaceholder txt pending = (txt, setAdd txt pending)"

text \<open>
  The body of the loop in \<open>translateTextNodesIn\<close> on an accepted node; the state of
  the loop is the WeakSet and the set of pending texts.
\<close>

definition translateTextNode ::
    "unicode \<Rightarrow> dictionary \<Rightarrow> bool \<Rightarrow> nat \<Rightarrow> jstring \<Rightarrow> nat set \<times> jstring list \<Rightarrow>
     error + jstring \<times> nat set \<times> jstring list" where
  "translateTextNode U dict useApi i originalText s =
     (case s of (weakSet, pending) \<Rightarrow>
        (case translateByDictionary U dict originalText of
           None \<Rightarrow> Inl SyntaxError
         | Some translatedByDictionary \<Rightarrow>
             (case (if useApi \<and> translatedByDictionary = originalText
                    then translateByOptionalApiSyncPlaceholder originalText pending
                    else (translatedByDictionary, pending)) of
                (finalText, pending') \<Rightarrow>
                  Inr (if finalText \<noteq> [] \<and> finalText \<noteq> originalText then finalText
                       else originalText,
                       insert i weakSet, pending'))))"

definition visitTextNode ::
    "unicode \<Rightarrow> dictionary \<Rightarrow> bool \<Rightarrow> bool \<Rightarrow> element list \<Rightarrow> nat \<Rightarrow> jstring \<Rightarrow>
     nat set \<times> jstring list \<Rightarrow> error + jstring \<times> nat set \<times> jstring list" where
  "visitTextNode U dict useApi onlyUntranslated path i nodeValue s =
     (if acceptNode onlyUntranslated (fst s) path i nodeValue
      then translateTextNode U dict useApi i nodeValue s
      else Inr (nodeValue, s))"

subsection \<open>Collecting texts for the translation API\<close>

definition utf16Length :: "jstring \<Rightarrow> nat" where
  "utf16Length s = sum_list (map (\<lambda>c. if c < 0x10000 then 1 else 2) s)"

text \<open>The class \<open>[\<dots>]\<close> of hiragana, katakana and ideographs in the filter.\<close>

definition looksJapanese :: "jstring \<Rightarrow> bool" where
  "looksJapanese s =
     list_ex (\<lambda>c. (0x3041 \<le> c \<and> c \<le> 0x3093) \<or> (0x30A1 \<le> c \<and> c \<le> 0x30F3)
                \<or> (0x4E00 \<le> c \<and> c \<le> 0x9FAF)) s"

definition acceptForApi :: "element list \<times> nat \<times> jstring \<Rightarrow> bool" where
  "acceptForApi t =
     (case t of (path, i, nodeValue) \<Rightarrow>
        path \<noteq> [] \<and> \<not> shouldSkipElement path \<and> trim nodeValue \<noteq> []
        \<and> \<not> utf16Length (trim nodeValue) < 4 \<and> \<not> looksJapanese (trim nodeValue))"

definition requestAsyncTranslationForVisibleTextNodes :: "page \<Rightarrow> error + page" where
  "requestAsyncTranslationForVisibleTextNodes pg =
     (if \<not> useTranslationApi (currentConfiguration pg) then Inr pg
      else
        (case body (document pg) of
           None \<Rightarrow> Inl TypeError
         | Some (bodyElement, children) \<Rightarrow>
             Inr (pg\<lparr>pendingAsyncTextsSet :=
                        foldl (\<lambda>s t. setAdd (snd (snd t)) s) (pendingAsyncTextsSet pg)
                          (filter acceptForApi
                            (textNodesAll [bodyElement, documentElement (document pg)] children)),
                      pendingAsyncTimer := True\<rparr>)))"

text \<open>
  \<open>translateTextNodesIn(document.body, onlyUntranslated)\<close>: both callers pass
  \<open>document.body\<close> as the root.  Without a body \<open>createTreeWalker\<close> throws.
\<close>

definition translateTextNodesIn :: "unicode \<Rightarrow> dictionary \<Rightarrow> bool \<Rightarrow> page \<Rightarrow> error + page" where
  "translateTextNodesIn U dict onlyUntranslated pg =
     (case body (document pg) of
        None \<Rightarrow> Inl TypeError
      | Some (bodyElement, children) \<Rightarrow>
          (case walkAll
                  (visitTextNode U dict (useTranslationApi (currentConfiguration pg))
                     onlyUntranslated)
                  [bodyElement, documentElement (document pg)] children
                  (translatedTextNodeWeakSet pg, pendingAsyncTextsSet pg) of
             Inl e \<Rightarrow> Inl e
           | Inr (children', weakSet, pending) \<Rightarrow>
               (if useTranslationApi (currentConfiguration pg)
                then requestAsyncTranslationForVisibleTextNodes
                else Inr)
                 (pg\<lparr>document := (document pg)\<lparr>body := Some (bodyElement, children')\<rparr>,
                     translatedTextNodeWeakSet := weakSet,
                     pendingAsyncTextsSet := pending\<rparr>)))"


section \<open>The translation API\<close>



















subsection \<open>The batch of pending texts\<close>

text \<open>
  The callback of \<open>pendingAsyncTimer\<close> runs in two steps.  When the timer fires, the
  first 50 pending texts are taken and the set is cleared; with no text the callback
  returns, else \<open>translateListByOptionalApi\<close> is called and awaited.
\<close>

definition pendingAsyncTimerFires :: "page \<Rightarrow> jstring list \<times> page" where
  "pendingAsyncTimerFires pg =
     (take 50 (pendingAsyncTextsSet pg),
      pg\<lparr>pendingAsyncTextsSet := [], pendingAsyncTimer := False\<rparr>)"






section \<open>Attributes\<close>

text \<open>
  The selector \<open>input[placeholder], textarea[placeholder], [aria-label], [title],
  button[title]\<close>.
\<close>

definition matchesSelector :: "element \<Rightarrow> bool" where
  "matchesSelector e \<longleftrightarrow>
     (tagName e = ''input'' \<and> hasAttribute e ''placeholder'')
     \<or> (tagName e = ''textarea'' \<and> hasAttribute e ''placeholder'')
     \<or> hasAttribute e ''aria-label''
     \<or> hasAttribute e ''title''
     \<or> (tagName e = ''button'' \<and> hasAttribute e ''title'')"

text \<open>
  The loop over \<open>attributesToTranslate\<close> on one element; the state is the list of
  requests sent to the API.
\<close>

fun translateAttributes ::
    "unicode \<Rightarrow> dictionary \<Rightarrow> bool \<Rightarrow> string list \<Rightarrow> element \<Rightarrow> (nat \<times> string \<times> jstring) list \<Rightarrow>
     error + element \<times> (nat \<times> string \<times> jstring) list" where
  "translateAttributes U dict useApi [] e requests = Inr (e, requests)"
| "translateAttributes U dict useApi (attributeName # names) e requests =
     (case getAttribute e attributeName of
        None \<Rightarrow> translateAttributes U dict useApi names e requests
      | Some original \<Rightarrow>
          if original = [] then translateAttributes U dict useApi names e requests
          else
            (case translateByDictionary U dict original of
               None \<Rightarrow> Inl SyntaxError
             | Some translated \<Rightarrow>
                 if translated \<noteq> original
                 then translateAttributes U dict useApi names
                        (setAttribute attributeName translated e) requests
                 else if useApi
                 then translateAttributes U dict useApi names e
                        (requests @ [(elementId e, attributeName, original)])
                 else translateAttributes U dict useApi names e requests))"

definition translateElement ::
    "unicode \<Rightarrow> dictionary \<Rightarrow> bool \<Rightarrow> element list \<Rightarrow> (nat \<times> string \<times> jstring) list \<Rightarrow>
     error + element \<times> (nat \<times> string \<times> jstring) list" where
  "translateElement U dict useApi path requests =
     (if \<not> matchesSelector (hd path) \<or> shouldSkipElement path then Inr (hd path, requests)
      else translateAttributes U dict useApi [''placeholder'', ''title'', ''aria-label'']
             (hd path) requests)"

text \<open>
  \<open>querySelectorAll(\<dots>).forEach\<close>: the elements in document order; \<open>visit\<close> is given
  the element with its ancestors.
\<close>

fun walkElements :: "(element list \<Rightarrow> 's \<Rightarrow> error + element \<times> 's) \<Rightarrow>
    element list \<Rightarrow> node \<Rightarrow> 's \<Rightarrow> error + node \<times> 's"
  and walkElementsAll :: "(element list \<Rightarrow> 's \<Rightarrow> error + element \<times> 's) \<Rightarrow>
    element list \<Rightarrow> node list \<Rightarrow> 's \<Rightarrow> error + node list \<times> 's"
where
  "walkElements visit path (TextNode i v) s = Inr (TextNode i v, s)"
| "walkElements visit path (ElementNode e children) s =
     (case visit (e # path) s of
        Inl err \<Rightarrow> Inl err
      | Inr (e', s') \<Rightarrow>
          (case walkElementsAll visit (e' # path) children s' of
             Inl err \<Rightarrow> Inl err
           | Inr (children', s'') \<Rightarrow> Inr (ElementNode e' children', s'')))"
| "walkElementsAll visit path [] s = Inr ([], s)"
| "walkElementsAll visit path (n # ns) s =
     (case walkElements visit path n s of
        Inl e \<Rightarrow> Inl e
      | Inr (n', s') \<Rightarrow>
          (case walkElementsAll visit path ns s' of
             Inl e \<Rightarrow> Inl e
           | Inr (ns', s'') \<Rightarrow> Inr (n' # ns', s'')))"

definition andThen :: "error + 'a \<Rightarrow> ('a \<Rightarrow> error + 'b) \<Rightarrow> error + 'b" where
  "andThen r f = (case r of Inl e \<Rightarrow> Inl e | Inr x \<Rightarrow> f x)"

text \<open>The whole document: the root element, then its children with the body among them.\<close>

definition walkDocument :: "(element list \<Rightarrow> 's \<Rightarrow> error + element \<times> 's) \<Rightarrow>
    document \<Rightarrow> 's \<Rightarrow> error + document \<times> 's" where
  "walkDocument visit d s =
     andThen (visit [documentElement d] s) (\<lambda>(root, s1).
     andThen (walkElementsAll visit [root] (beforeBody d) s1) (\<lambda>(before', s2).
     andThen (case body d of
                None \<Rightarrow> Inr (None, s2)
              | Some (b, children) \<Rightarrow>
                  andThen (visit [b, root] s2) (\<lambda>(b', s3).
                  andThen (walkElementsAll visit [b', root] children s3) (\<lambda>(children', s4).
                  Inr (Some (b', children'), s4)))) (\<lambda>(body', s5).
     andThen (walkElementsAll visit [root] (afterBody d) s5) (\<lambda>(after', s6).
     Inr (\<lparr>documentElement = root, beforeBody = before', body = body',
           afterBody = after'\<rparr>, s6)))))"

definition translateAttributesForInteractiveElements ::
    "unicode \<Rightarrow> dictionary \<Rightarrow> page \<Rightarrow> error + page" where
  "translateAttributesForInteractiveElements U dict pg =
     andThen
       (walkDocument (translateElement U dict (useTranslationApi (currentConfiguration pg)))
          (document pg) (attributeRequests pg))
       (\<lambda>(d, requests). Inr (pg\<lparr>document := d, attributeRequests := requests\<rparr>))"





section \<open>Initialisation and observation\<close>

definition translateEntireDocumentNow :: "unicode \<Rightarrow> dictionary \<Rightarrow> page \<Rightarrow> error + page" where
  "translateEntireDocumentNow U dict pg =
     andThen (translateTextNodesIn U dict False pg)
       (translateAttributesForInteractiveElements U dict)"




definition startObservingAndTranslating :: "unicode \<Rightarrow> dictionary \<Rightarrow> page \<Rightarrow> error + page" where
  "startObservingAndTranslating U dict pg =
     andThen (translateEntireDocumentNow U dict pg)
       (\<lambda>pg'. Inr (pg'\<lparr>domObserver := True, pjaxListener := True\<rparr>))"

text \<open>
  \<open>initializeJapaneseTranslator\<close>; \<open>stored\<close> is what \<open>chrome.storage.sync.get\<close> gives,
  the defaults filled in, or the error it rejects with.  An error thrown on the way is
  caught and written to the console; the two listeners are registered last.
\<close>

definition initializeJapaneseTranslator ::
    "unicode \<Rightarrow> dictionary \<Rightarrow> error + configuration \<Rightarrow> page \<Rightarrow> page" where
  "initializeJapaneseTranslator U dict stored pg =
     (case pg\<lparr>document :=
               (document pg)\<lparr>documentElement :=
                 setAttribute ''lang'' (ascii ''ja'') (documentElement (document pg))\<rparr>\<rparr> of
        pg1 \<Rightarrow>
          (case stored of
             Inl e \<Rightarrow> pg1\<lparr>console := console pg1 @ [InitializationFailed e]\<rparr>
           | Inr config \<Rightarrow>
               (case pg1\<lparr>currentConfiguration := config\<rparr> of
                  pg2 \<Rightarrow>
                    if \<not> isEnabledOnGithub config then pg2
                    else
                      (case startObservingAndTranslating U dict pg2 of
                         Inl e \<Rightarrow> pg2\<lparr>console := console pg2 @ [InitializationFailed e]\<rparr>
                       | Inr pg3 \<Rightarrow> pg3\<lparr>keydownListener := True, messageListener := True\<rparr>))))"

section \<open>Notions used in the statements\<close>

text \<open>
  A pattern matches somewhere in a string: at the position reached or at a later one.
\<close>

fun matchesFrom :: "unicode \<Rightarrow> compiledPattern \<Rightarrow> jstring \<Rightarrow> jstring \<Rightarrow> bool" where
  "matchesFrom U p prior [] = (matchAtoms U (pattern p) prior [] \<noteq> None)"
| "matchesFrom U p prior (c # cs) =
     (matchAtoms U (pattern p) prior (c # cs) \<noteq> None \<or> matchesFrom U p (prior @ [c]) cs)"

text \<open>
  Two engines agree on a set of characters; the characters a pattern names.
\<close>

definition agreeOn :: "unicode \<Rightarrow> unicode \<Rightarrow> codepoint set \<Rightarrow> bool" where
  "agreeOn U V S \<longleftrightarrow>
     (\<forall>c \<in> S. isLetter U c = isLetter V c \<and> isNumber U c = isNumber V c
        \<and> canonicalize U c = canonicalize V c)"

fun atomCharacters :: "atom list \<Rightarrow> codepoint list" where
  "atomCharacters [] = []"
| "atomCharacters (Character c # as) = c # atomCharacters as"
| "atomCharacters (a # as) = atomCharacters as"

text \<open>A phrase of the dictionary remains in a text: one of the compiled patterns matches in it.\<close>

definition phraseRemains :: "unicode \<Rightarrow> dictionary \<Rightarrow> jstring \<Rightarrow> bool" where
  "phraseRemains U dict txt =
     (case compileDictionary dict of
        None \<Rightarrow> False
      | Some patterns \<Rightarrow> list_ex (\<lambda>p. matchesFrom U p [] txt) patterns)"

section \<open>Example data\<close>

text \<open>
  Japanese phrases of the examples, by their code points: the katakana of
  \<open>pu-ru-ri-ku\<close>, \<open>ri-ku-e-su-to\<close> and \<open>e-pi-a-i\<close> (with prolonged sound marks), the
  ideographs of \<open>kadai\<close> (task, for Issues), \<open>shinki\<close> (new) and \<open>kensaku\<close> (search).
\<close>

definition puruRiku :: jstring where
  "puruRiku = [0x30D7, 0x30EB, 0x30EA, 0x30AF]"

definition rikuesuto :: jstring where
  "rikuesuto = [0x30EA, 0x30AF, 0x30A8, 0x30B9, 0x30C8]"

definition epiai :: jstring where
  "epiai = [0x30A8, 0x30FC, 0x30D4, 0x30FC, 0x30A2, 0x30A4]"

definition kadai :: jstring where
  "kadai = [0x8AB2, 0x984C]"

definition shinki :: jstring where
  "shinki = [0x65B0, 0x898F]"

definition kensaku :: jstring where
  "kensaku = [0x691C, 0x7D22]"

definition pullRequestEntries :: dictionary where
  "pullRequestEntries = [(ascii ''Pull Request'', puruRiku), (ascii ''Request'', rikuesuto)]"

text \<open>The text nodes that the walkers over \<open>document.body\<close> are shown.\<close>

definition bodyTextNodes :: "document \<Rightarrow> (element list \<times> nat \<times> jstring) list" where
  "bodyTextNodes d =
     (case body d of
        None \<Rightarrow> []
      | Some (b, children) \<Rightarrow> textNodesAll [b, documentElement d] children)"







text \<open>
  A page whose body is \<open><p>Issues</p><pre>Issues</pre>\<close>, before the content script
  has run, and a dictionary with the entry for \<open>Issues\<close>.
\<close>

definition plainElement :: "nat \<Rightarrow> string \<Rightarrow> element" where
  "plainElement i name = \<lparr>elementId = i, tagName = name, classList = [], attributes = []\<rparr>"

definition freshPage :: "node list \<Rightarrow> page" where
  "freshPage children =
     \<lparr>document =
        \<lparr>documentElement = plainElement 0 ''html'',
         beforeBody = [ElementNode (plainElement 1 ''head'') []],
         body = Some (plainElement 2 ''body'', children),
         afterBody = []\<rparr>,
      currentConfiguration = defaultConfiguration,
      translatedTextNodeWeakSet = {},
      pendingAsyncTextsSet = [],
      pendingAsyncTimer = False,
      attributeRequests = [],
      console = [],
      domObserver = False,
      pjaxListener = False,
      keydownListener = False,
      messageListener = False\<rparr>"

definition issuesPage :: page where
  "issuesPage =
     freshPage
       [ElementNode (plainElement 3 ''p'') [TextNode 10 (ascii ''Issues'')],
        ElementNode (plainElement 4 ''pre'') [TextNode 11 (ascii ''Issues'')]]"

definition issuesDictionary :: dictionary where
  "issuesDictionary = [(ascii ''Issues'', kadai)]"

text \<open>The configuration with the API switched on, and a page with a search field.\<close>

definition apiConfiguration :: configuration where
  "apiConfiguration =
     defaultConfiguration\<lparr>useTranslationApi := True, translationProvider := ''DeepL'',
       translationApiKey := ascii ''key''\<rparr>"





text \<open>
  A page with the text \<open>Open\<close> in five list items, and a page with 51 short texts in
  one paragraph: \<open>a0\<close>, \<open>a1\<close>, and so on to \<open>e9\<close>, then \<open>OK\<close>.  On both the API is
  switched on.
\<close>

definition openPage :: page where
  "openPage =
     (freshPage
        [ElementNode (plainElement 3 ''ul'')
           (map (\<lambda>k. ElementNode (plainElement k ''li'') [TextNode (10 + k) (ascii ''Open'')])
              [20..<25])])
     \<lparr>currentConfiguration := apiConfiguration\<rparr>"

definition crowdedPage :: page where
  "crowdedPage =
     (freshPage
        [ElementNode (plainElement 3 ''p'')
           (map (\<lambda>k. TextNode k [0x60 + k div 10, 0x30 + k mod 10]) [10..<60]
            @ [TextNode 60 (ascii ''OK'')])])
     \<lparr>currentConfiguration := apiConfiguration\<rparr>"





text \<open>A page with two text nodes in a paragraph.\<close>

definition twoTextsPage :: "jstring \<Rightarrow> jstring \<Rightarrow> page" where
  "twoTextsPage s t =
     (freshPage [ElementNode (plainElement 3 ''p'') [TextNode 10 s, TextNode 11 t]])
     \<lparr>currentConfiguration := apiConfiguration\<rparr>"




declare replaceFrom.simps [simp del]

section \<open>The dictionary pass: compiled patterns\<close>

lemma readCharacters_plain:
  "c \<notin> set syntaxCharacters \<Longrightarrow>
   readCharacters (c # cs) = map_option ((#) (Character c)) (readCharacters cs)"
  by (cases cs) (auto simp: syntaxCharacters_def)

lemma readCharacters_escaped: "readCharacters (escaped english) = Some (map Character english)"
proof (induction english)
  case Nil
  show ?case by (simp add: escaped_def)
next
  case (Cons c cs)
  have step: "escaped (c # cs) = (if c \<in> set syntaxCharacters then [0x5C, c] else [c]) @ escaped cs"
    by (simp add: escaped_def)
  show ?case
  proof (cases "c \<in> set syntaxCharacters")
    case True
    then show ?thesis using Cons.IH by (simp add: step)
  next
    case False
    then show ?thesis using Cons.IH by (simp add: step readCharacters_plain)
  qed
qed

lemma compileEntry_eq:
  "compileEntry (english, japanese) =
     Some \<lparr>pattern = NegLookbehindWord # map Character english @ [NegLookaheadWord],
           replacement = japanese\<rparr>"
  by (simp add: compileEntry_def newRegExp_def readCharacters_escaped)

lemma those_map_Some: "those (map (\<lambda>x. Some (f x)) xs) = Some (map f xs)"
  by (induction xs) simp_all

lemma compileDictionary_eq:
  "compileDictionary dict =
     Some (map (\<lambda>(english, japanese).
                 \<lparr>pattern = NegLookbehindWord # map Character english @ [NegLookaheadWord],
                  replacement = japanese\<rparr>) dict)"
proof -
  have "map compileEntry dict =
      map (\<lambda>x. Some ((\<lambda>(english, japanese).
                 \<lparr>pattern = NegLookbehindWord # map Character english @ [NegLookaheadWord],
                  replacement = japanese\<rparr>) x)) dict"
    by (rule map_cong) (auto simp: compileEntry_eq)
  then show ?thesis
    unfolding compileDictionary_def by (simp only: those_map_Some)
qed



lemma translateByDictionary_eq:
  "translateByDictionary U dict txt =
     Some (foldl (\<lambda>output p. replace U p output) txt
             (map (\<lambda>(english, japanese).
                     \<lparr>pattern = NegLookbehindWord # map Character english @ [NegLookaheadWord],
                      replacement = japanese\<rparr>) dict))"
  by (simp add: translateByDictionary_def compileDictionary_eq)

lemma translateByDictionary_total: "\<exists>output. translateByDictionary U dict txt = Some output"
  by (simp add: translateByDictionary_eq)


lemma replaceFrom_no_match:
  "\<not> matchesFrom U p prior rest \<Longrightarrow> replaceFrom U p prior rest = rest"
proof (induction rest arbitrary: prior)
  case Nil
  then show ?case by (simp add: replaceFrom.simps [of U p prior "[]"])
next
  case (Cons c cs)
  then show ?case by (simp add: replaceFrom.simps [of U p prior "c # cs"])
qed

lemma foldl_replace_no_match:
  "\<not> list_ex (\<lambda>p. matchesFrom U p [] txt) patterns \<Longrightarrow>
   foldl (\<lambda>output p. replace U p output) txt patterns = txt"
  by (induction patterns) (simp_all add: replace_def replaceFrom_no_match)

lemmas evalDictionary = translateByDictionary_def compileDictionary_def compileEntry_def
  newRegExp_def escaped_def syntaxCharacters_def ascii_def replace_def replaceFrom.simps
  basicLatinJapanese_def wordCharacter_def phraseRemains_def puruRiku_def rikuesuto_def
  epiai_def kadai_def shinki_def kensaku_def pullRequestEntries_def






subsection \<open>The pass depends on the engine at the characters at hand only\<close>

lemma wordCharacter_agree: "agreeOn U V S \<Longrightarrow> c \<in> S \<Longrightarrow> wordCharacter U c = wordCharacter V c"
  by (simp add: agreeOn_def wordCharacter_def)

lemma matchAtoms_agree:
  "agreeOn U V S \<Longrightarrow> set prior \<subseteq> S \<Longrightarrow> set rest \<subseteq> S \<Longrightarrow> set (atomCharacters as) \<subseteq> S \<Longrightarrow>
   matchAtoms U as prior rest = matchAtoms V as prior rest"
proof (induction U as prior rest rule: matchAtoms.induct)
  case (1 U prior rest)
  show ?case by simp
next
  case (2 U as prior rest)
  have "prior \<noteq> [] \<Longrightarrow> wordCharacter U (last prior) = wordCharacter V (last prior)"
    using 2(2,3) by (intro wordCharacter_agree) auto
  with 2 show ?case by auto
next
  case (3 U as prior rest)
  have "rest \<noteq> [] \<Longrightarrow> wordCharacter U (hd rest) = wordCharacter V (hd rest)"
    using 3(2,4) by (intro wordCharacter_agree) auto
  with 3 show ?case by auto
next
  case (4 U c as prior rest)
  show ?case
  proof (cases rest)
    case Nil
    then show ?thesis by simp
  next
    case (Cons x xs)
    have "canonicalize U x = canonicalize V x" "canonicalize U c = canonicalize V c"
      using 4(2,4,5) Cons by (auto simp: agreeOn_def)
    moreover have "canonicalize U x = canonicalize U c \<Longrightarrow>
        matchAtoms U as (prior @ [x]) xs = matchAtoms V as (prior @ [x]) xs"
      using 4 Cons by auto
    ultimately show ?thesis using Cons by auto
  qed
qed

lemma getSubstitution_characters:
  "set (getSubstitution matched prior rest template)
     \<subseteq> set matched \<union> set prior \<union> set rest \<union> set template"
  by (induction matched prior rest template rule: getSubstitution.induct) auto

lemma replaceFrom_agree:
  "agreeOn U V S \<Longrightarrow> set prior \<subseteq> S \<Longrightarrow> set rest \<subseteq> S \<Longrightarrow>
   set (atomCharacters (pattern p)) \<subseteq> S \<Longrightarrow>
   replaceFrom U p prior rest = replaceFrom V p prior rest"
proof (induction U p prior rest rule: replaceFrom.induct)
  case (1 U p prior rest)
  have m: "matchAtoms V (pattern p) prior rest = matchAtoms U (pattern p) prior rest"
    using 1(4-7) by (rule matchAtoms_agree [symmetric])
  show ?case
  proof (cases "matchAtoms U (pattern p) prior rest")
    case None
    then have mV: "matchAtoms V (pattern p) prior rest = None" using m by simp
    show ?thesis
    proof (cases rest)
      case Nil
      with None mV show ?thesis
        by (simp add: replaceFrom.simps [of U p prior "[]"] replaceFrom.simps [of V p prior "[]"])
    next
      case (Cons c cs)
      have "replaceFrom U p (prior @ [c]) cs = replaceFrom V p (prior @ [c]) cs"
        using 1(1) [OF None Cons] 1(4-7) Cons by simp
      with None mV Cons show ?thesis
        by (simp add: replaceFrom.simps [of U p prior "c # cs"] replaceFrom.simps [of V p prior "c # cs"])
    qed
  next
    case (Some n)
    then have mV: "matchAtoms V (pattern p) prior rest = Some n" using m by simp
    show ?thesis
    proof (cases "n = 0")
      case True
      show ?thesis
      proof (cases rest)
        case Nil
        with Some mV True show ?thesis
          by (simp add: replaceFrom.simps [of U p prior "[]"] replaceFrom.simps [of V p prior "[]"])
      next
        case (Cons c cs)
        have "replaceFrom U p (prior @ [c]) cs = replaceFrom V p (prior @ [c]) cs"
          using 1(2) [OF Some True Cons] 1(4-7) Cons by simp
        with Some mV True Cons show ?thesis
          by (simp add: replaceFrom.simps [of U p prior "c # cs"] replaceFrom.simps [of V p prior "c # cs"])
      qed
    next
      case False
      have "set (take n rest) \<subseteq> S" "set (drop n rest) \<subseteq> S"
        using 1(6) set_take_subset set_drop_subset by fast+
      then have "replaceFrom U p (prior @ take n rest) (drop n rest)
          = replaceFrom V p (prior @ take n rest) (drop n rest)"
        using 1(3) [OF Some False] 1(4-7) by simp
      with Some mV False show ?thesis
        by (simp add: replaceFrom.simps [of U p prior rest] replaceFrom.simps [of V p prior rest])
    qed
  qed
qed

lemma replaceFrom_characters:
  "set (replaceFrom U p prior rest) \<subseteq> set prior \<union> set rest \<union> set (replacement p)"
proof (induction U p prior rest rule: replaceFrom.induct)
  case (1 U p prior rest)
  show ?case
  proof (cases "matchAtoms U (pattern p) prior rest")
    case None
    show ?thesis
    proof (cases rest)
      case Nil
      with None show ?thesis by (simp add: replaceFrom.simps [of U p prior "[]"])
    next
      case (Cons c cs)
      from 1(1) [OF None Cons] None Cons show ?thesis
        by (auto simp: replaceFrom.simps [of U p prior "c # cs"])
    qed
  next
    case (Some n)
    have g: "set (getSubstitution (take n rest) prior (drop n rest) (replacement p))
        \<subseteq> set prior \<union> set rest \<union> set (replacement p)"
      using getSubstitution_characters [of "take n rest" prior "drop n rest" "replacement p"]
        set_take_subset [of n rest] set_drop_subset [of n rest] by blast
    show ?thesis
    proof (cases "n = 0")
      case True
      show ?thesis
      proof (cases rest)
        case Nil
        with Some True g show ?thesis by (simp add: replaceFrom.simps [of U p prior "[]"])
      next
        case (Cons c cs)
        from 1(2) [OF Some True Cons] Some True Cons g show ?thesis
          by (auto simp: replaceFrom.simps [of U p prior "c # cs"])
      qed
    next
      case False
      have "set (replaceFrom U p (prior @ take n rest) (drop n rest))
          \<subseteq> set prior \<union> set rest \<union> set (replacement p)"
        using 1(3) [OF Some False] set_take_subset [of n rest] set_drop_subset [of n rest]
        by auto
      with Some False g show ?thesis
        by (simp add: replaceFrom.simps [of U p prior rest])
    qed
  qed
qed



lemma foldl_replace_agree:
  "agreeOn U V S \<Longrightarrow> set t \<subseteq> S \<Longrightarrow>
   \<forall>p \<in> set ps. set (atomCharacters (pattern p)) \<subseteq> S \<and> set (replacement p) \<subseteq> S \<Longrightarrow>
   foldl (\<lambda>output p. replace U p output) t ps = foldl (\<lambda>output p. replace V p output) t ps"
proof (induction ps arbitrary: t)
  case Nil
  show ?case by simp
next
  case (Cons p ps)
  have same: "replace U p t = replace V p t"
    unfolding replace_def using Cons.prems by (intro replaceFrom_agree) auto
  have "set (replace U p t) \<subseteq> S"
    unfolding replace_def using replaceFrom_characters [of U p "[]" t] Cons.prems by auto
  from Cons.IH [OF Cons.prems(1) this] Cons.prems(3) same show ?case by simp
qed

lemma atomCharacters_literal:
  "atomCharacters (map Character english @ [NegLookaheadWord]) = english"
  by (induction english) simp_all

lemma dictionaryCharacters_entry:
  "(english, japanese) \<in> set dict \<Longrightarrow>
   set english \<subseteq> set (dictionaryCharacters dict) \<and> set japanese \<subseteq> set (dictionaryCharacters dict)"
  by (induction dict) (auto simp: dictionaryCharacters_def)

lemma compiled_characters:
  assumes "set (dictionaryCharacters dict) \<subseteq> S"
    and "p \<in> set (map (\<lambda>(english, japanese).
        \<lparr>pattern = NegLookbehindWord # map Character english @ [NegLookaheadWord],
         replacement = japanese\<rparr>) dict)"
  shows "set (atomCharacters (pattern p)) \<subseteq> S \<and> set (replacement p) \<subseteq> S"
proof -
  from assms(2) obtain english japanese where e: "(english, japanese) \<in> set dict"
    and p: "p = \<lparr>pattern = NegLookbehindWord # map Character english @ [NegLookaheadWord],
         replacement = japanese\<rparr>"
    by auto
  from dictionaryCharacters_entry [OF e] assms(1) show ?thesis
    by (simp add: p atomCharacters_literal) blast
qed

lemma translateByDictionary_agree:
  assumes "agreeOn U V S" and "set t \<subseteq> S" and "set (dictionaryCharacters dict) \<subseteq> S"
  shows "translateByDictionary U dict t = translateByDictionary V dict t"
proof -
  have "\<forall>p \<in> set (map (\<lambda>(english, japanese).
        \<lparr>pattern = NegLookbehindWord # map Character english @ [NegLookaheadWord],
         replacement = japanese\<rparr>) dict).
      set (atomCharacters (pattern p)) \<subseteq> S \<and> set (replacement p) \<subseteq> S"
    using compiled_characters [OF assms(3)] by blast
  from foldl_replace_agree [OF assms(1,2) this] show ?thesis
    by (simp add: translateByDictionary_eq)
qed


lemma agreesWithExcerpt_agreeOn:
  "agreesWithExcerpt U \<Longrightarrow> agreeOn U basicLatinJapanese (Collect knownCharacter)"
  by (simp add: agreesWithExcerpt_def agreeOn_def)

lemma excerpt_translateByDictionary:
  assumes "agreesWithExcerpt U" and "list_all knownCharacter t"
    and "list_all knownCharacter (dictionaryCharacters dict)"
  shows "translateByDictionary U dict t = translateByDictionary basicLatinJapanese dict t"
  using assms
  by (intro translateByDictionary_agree [OF agreesWithExcerpt_agreeOn])
    (auto simp: list_all_iff)


lemma agreesWithExcerpt_self: "agreesWithExcerpt basicLatinJapanese"
  by (simp add: agreesWithExcerpt_def)

lemmas evalKnown = knownCharacter_def dictionaryCharacters_def ascii_def puruRiku_def
  rikuesuto_def epiai_def kadai_def shinki_def kensaku_def pullRequestEntries_def
  issuesDictionary_def

section \<open>Walking the document: lemmas\<close>

lemma acceptNode_split:
  "acceptNode only ws p i v \<longleftrightarrow> acceptNode False {} p i v \<and> \<not> (only \<and> i \<in> ws)"
  by (auto simp: acceptNode_def)

lemma visitTextNode_cases:
  assumes "visitTextNode U dict api only p i v (ws, pd) = Inr (v', ws', pd')"
  shows "if acceptNode only ws p i v then ws' = insert i ws else v' = v \<and> ws' = ws \<and> pd' = pd"
proof (cases "acceptNode only ws p i v")
  case True
  obtain t where t: "translateByDictionary U dict v = Some t"
    using translateByDictionary_total by blast
  from assms True show ?thesis
    by (simp add: visitTextNode_def translateTextNode_def t
        translateByOptionalApiSyncPlaceholder_def split: if_splits)
next
  case False
  with assms show ?thesis by (simp add: visitTextNode_def)
qed

lemma visitTextNode_total:
  "\<exists>r. visitTextNode U dict api only p i v s = Inr r"
proof -
  obtain t where t: "translateByDictionary U dict v = Some t"
    using translateByDictionary_total by blast
  show ?thesis
    by (cases s) (simp add: visitTextNode_def translateTextNode_def t
      translateByOptionalApiSyncPlaceholder_def)
qed

lemma walk_total:
  "(\<And>p i v s. \<exists>r. visit p i v s = Inr r) \<Longrightarrow> \<exists>r. walk visit path n s = Inr r"
  "(\<And>p i v s. \<exists>r. visit p i v s = Inr r) \<Longrightarrow> \<exists>r. walkAll visit path ns s = Inr r"
proof (induction visit path n s and visit path ns s rule: walk_walkAll.induct)
  case (1 visit path i v s)
  then obtain r where "visit path i v s = Inr r" by blast
  then show ?case by (cases r) simp
next
  case (2 visit path e children s)
  then obtain r where "walkAll visit (e # path) children s = Inr r" by blast
  then show ?case by (cases r) simp
next
  case (3 visit path s)
  show ?case by simp
next
  case (4 visit path n ns s)
  from 4(1) [OF 4(3)] obtain n' s' where a: "walk visit path n s = Inr (n', s')" by force
  from 4(2) [OF a refl 4(3)] obtain r where "walkAll visit path ns s' = Inr r" by blast
  with a show ?case by (cases r) simp
qed

lemma walk_marks:
  "walk (visitTextNode U dict api only) path n (ws, pd) = Inr (n', ws', pd') \<Longrightarrow>
     ws \<subseteq> ws'
     \<and> (\<forall>(p, i, v) \<in> set (textNodes path n). acceptNode only ws p i v \<longrightarrow> i \<in> ws')
     \<and> (\<forall>(p, i, v) \<in> set (textNodes path n'). acceptNode False {} p i v \<longrightarrow> i \<in> ws')"
  "walkAll (visitTextNode U dict api only) path ns (ws, pd) = Inr (ns', ws', pd') \<Longrightarrow>
     ws \<subseteq> ws'
     \<and> (\<forall>(p, i, v) \<in> set (textNodesAll path ns). acceptNode only ws p i v \<longrightarrow> i \<in> ws')
     \<and> (\<forall>(p, i, v) \<in> set (textNodesAll path ns'). acceptNode False {} p i v \<longrightarrow> i \<in> ws')"
proof (induction "visitTextNode U dict api only" path n "(ws, pd)"
    and "visitTextNode U dict api only" path ns "(ws, pd)"
    arbitrary: n' ws' pd' ws pd and ns' ws' pd' ws pd rule: walk_walkAll.induct)
  case (1 path i v)
  from 1 obtain v' where v: "visitTextNode U dict api only path i v (ws, pd) = Inr (v', ws', pd')"
    and n': "n' = TextNode i v'"
    by (auto split: sum.splits)
  from visitTextNode_cases [OF v] show ?case
    unfolding n' using acceptNode_split [of only ws path i v] acceptNode_split [of only ws path i v']
    by (auto split: if_splits)
next
  case (2 path e children)
  from 2(2) obtain cs' where w: "walkAll (visitTextNode U dict api only) (e # path) children (ws, pd)
      = Inr (cs', ws', pd')" and n': "n' = ElementNode e cs'"
    by (auto split: sum.splits)
  from 2(1) [OF w] show ?case unfolding n' by simp
next
  case (3 path)
  then show ?case by auto
next
  case (4 path n ns)
  from 4(3) obtain m ws1 pd1 ms where a: "walk (visitTextNode U dict api only) path n (ws, pd) = Inr (m, ws1, pd1)"
    and b: "walkAll (visitTextNode U dict api only) path ns (ws1, pd1) = Inr (ms, ws', pd')"
    and ns': "ns' = m # ms"
    by (auto split: sum.splits)
  note A = 4(1) [OF a]
  note B = 4(2) [OF a refl b]
  have mono: "\<And>p i v. acceptNode only ws p i v \<Longrightarrow> acceptNode only ws1 p i v \<or> i \<in> ws1"
    by (auto simp: acceptNode_def)
  have s1: "ws \<subseteq> ws'" using A B by blast
  have s2: "i \<in> ws'" if "(p, i, v) \<in> set (textNodesAll path (n # ns))" "acceptNode only ws p i v"
    for p i v
  proof (cases "(p, i, v) \<in> set (textNodes path n)")
    case True
    with A that(2) have "i \<in> ws1" by blast
    with B show ?thesis by blast
  next
    case False
    with that(1) have in_ns: "(p, i, v) \<in> set (textNodesAll path ns)" by simp
    from mono [OF that(2)] show ?thesis
    proof
      assume "acceptNode only ws1 p i v"
      with B in_ns show ?thesis by blast
    next
      assume "i \<in> ws1"
      with B show ?thesis by blast
    qed
  qed
  have s3: "i \<in> ws'" if "(p, i, v) \<in> set (textNodesAll path (m # ms))" "acceptNode False {} p i v"
    for p i v
  proof (cases "(p, i, v) \<in> set (textNodes path m)")
    case True
    with A that(2) have "i \<in> ws1" by blast
    with B show ?thesis by blast
  next
    case False
    with that(1) have "(p, i, v) \<in> set (textNodesAll path ms)" by simp
    with B that(2) show ?thesis by blast
  qed
  show ?case unfolding ns' using s1 s2 s3 by blast
qed

lemma walk_nothing_to_do:
  "(\<forall>(p, i, v) \<in> set (textNodes path n). acceptNode False {} p i v \<longrightarrow> i \<in> ws) \<Longrightarrow>
     walk (visitTextNode U dict api True) path n (ws, pd) = Inr (n, ws, pd)"
  "(\<forall>(p, i, v) \<in> set (textNodesAll path ns). acceptNode False {} p i v \<longrightarrow> i \<in> ws) \<Longrightarrow>
     walkAll (visitTextNode U dict api True) path ns (ws, pd) = Inr (ns, ws, pd)"
proof (induction "visitTextNode U dict api True" path n "(ws, pd)"
    and "visitTextNode U dict api True" path ns "(ws, pd)" rule: walk_walkAll.induct)
  case (1 path i v)
  then have "\<not> acceptNode True ws path i v"
    using acceptNode_split [of True ws path i v] by auto
  then show ?case by (simp add: visitTextNode_def)
next
  case (2 path e children)
  then show ?case by simp
next
  case (3 path)
  show ?case by simp
next
  case (4 path n ns)
  then show ?case by simp
qed



lemma requestAsync_keeps:
  assumes "body (document pg) \<noteq> None"
  shows "\<exists>pg'. requestAsyncTranslationForVisibleTextNodes pg = Inr pg'
    \<and> document pg' = document pg
    \<and> translatedTextNodeWeakSet pg' = translatedTextNodeWeakSet pg
    \<and> currentConfiguration pg' = currentConfiguration pg"
  using assms by (auto simp: requestAsyncTranslationForVisibleTextNodes_def)

lemma translateTextNodesIn_result:
  assumes b: "body (document pg) = Some (b, children)"
  shows "\<exists>pg' children' ws' pd'.
      translateTextNodesIn U dict only pg = Inr pg'
    \<and> walkAll (visitTextNode U dict (useTranslationApi (currentConfiguration pg)) only)
         [b, documentElement (document pg)] children
         (translatedTextNodeWeakSet pg, pendingAsyncTextsSet pg) = Inr (children', ws', pd')
    \<and> document pg' = (document pg)\<lparr>body := Some (b, children')\<rparr>
    \<and> translatedTextNodeWeakSet pg' = ws'
    \<and> currentConfiguration pg' = currentConfiguration pg"
proof -
  obtain r where "walkAll (visitTextNode U dict (useTranslationApi (currentConfiguration pg)) only)
         [b, documentElement (document pg)] children
         (translatedTextNodeWeakSet pg, pendingAsyncTextsSet pg) = Inr r"
    using walk_total(2) [of "visitTextNode U dict (useTranslationApi (currentConfiguration pg)) only"]
      visitTextNode_total by blast
  then obtain children' ws' pd' where w: "walkAll (visitTextNode U dict (useTranslationApi (currentConfiguration pg)) only)
         [b, documentElement (document pg)] children
         (translatedTextNodeWeakSet pg, pendingAsyncTextsSet pg) = Inr (children', ws', pd')"
    by (cases r) auto
  let ?pg1 = "pg\<lparr>document := (document pg)\<lparr>body := Some (b, children')\<rparr>,
                     translatedTextNodeWeakSet := ws',
                     pendingAsyncTextsSet := pd'\<rparr>"
  show ?thesis
  proof (cases "useTranslationApi (currentConfiguration pg)")
    case True
    have "body (document ?pg1) \<noteq> None" by simp
    from requestAsync_keeps [OF this] obtain pg' where
      "requestAsyncTranslationForVisibleTextNodes ?pg1 = Inr pg'"
      "document pg' = document ?pg1" "translatedTextNodeWeakSet pg' = translatedTextNodeWeakSet ?pg1"
      "currentConfiguration pg' = currentConfiguration ?pg1"
      by blast
    with True w b show ?thesis by (simp add: translateTextNodesIn_def)
  next
    case False
    with w b show ?thesis by (simp add: translateTextNodesIn_def)
  qed
qed

lemma distinct_setAdd: "distinct s \<Longrightarrow> distinct (setAdd t s)"
  by (simp add: setAdd_def)

lemma set_setAdd: "set (setAdd t s) = insert t (set s)"
  by (auto simp: setAdd_def)

lemma distinct_foldl_setAdd:
  "distinct s \<Longrightarrow> distinct (foldl (\<lambda>s t. setAdd (f t) s) s ts)"
  by (induction ts arbitrary: s) (simp_all add: distinct_setAdd)

lemma set_foldl_setAdd:
  "set (foldl (\<lambda>s t. setAdd (f t) s) s ts) = set s \<union> f ` set ts"
  by (induction ts arbitrary: s) (auto simp: set_setAdd)

lemma walk_invariant:
  "(\<And>p i v s v' s'. visit p i v s = Inr (v', s') \<Longrightarrow> I s \<Longrightarrow> I s') \<Longrightarrow>
    walk visit path n s = Inr (n', s') \<Longrightarrow> I s \<Longrightarrow> I s'"
  "(\<And>p i v s v' s'. visit p i v s = Inr (v', s') \<Longrightarrow> I s \<Longrightarrow> I s') \<Longrightarrow>
    walkAll visit path ns s = Inr (ns', s') \<Longrightarrow> I s \<Longrightarrow> I s'"
proof (induction visit path n s and visit path ns s arbitrary: n' s' and ns' s'
    rule: walk_walkAll.induct)
  case (1 visit path i v s)
  from 1(2) obtain v' where v: "visit path i v s = Inr (v', s')"
    by (auto split: sum.splits)
  from 1(1) [OF v 1(3)] show ?case .
next
  case (2 visit path e children s)
  from 2(3) obtain cs' where w: "walkAll visit (e # path) children s = Inr (cs', s')"
    by (auto split: sum.splits)
  from 2(1) [OF 2(2) w 2(4)] show ?case .
next
  case (3 visit path s)
  then show ?case by auto
next
  case (4 visit path n ns s)
  from 4(4) obtain m s1 ms where a: "walk visit path n s = Inr (m, s1)"
    and b: "walkAll visit path ns s1 = Inr (ms, s')"
    by (auto split: sum.splits)
  from 4(2) [OF a refl 4(3) b 4(1) [OF 4(3) a 4(5)]] show ?case .
qed

lemma visitTextNode_distinct:
  assumes "visitTextNode U dict api only p i v s = Inr (v', s')" and "distinct (snd s)"
  shows "distinct (snd s')"
proof -
  obtain t where t: "translateByDictionary U dict v = Some t"
    using translateByDictionary_total by blast
  from assms show ?thesis
    by (cases s) (auto simp: visitTextNode_def translateTextNode_def t
        translateByOptionalApiSyncPlaceholder_def distinct_setAdd split: if_splits)
qed











lemma getAttribute_setAttribute: "getAttribute (setAttribute name v e) name = Some v"
proof -
  have "map_of (map (\<lambda>(n, old). if n = name then (n, v) else (n, old)) xs) name = Some v"
    if "map_of xs name \<noteq> None" for xs :: "(string \<times> jstring) list"
    using that by (induction xs) (auto split: if_splits)
  moreover have "map_of (xs @ [(name, v)]) name = Some v"
    if "map_of xs name = None" for xs :: "(string \<times> jstring) list"
    using that by (induction xs) auto
  ultimately show ?thesis
    by (auto simp: getAttribute_def setAttribute_def hasAttribute_def)
qed


subsection \<open>Skipped regions keep their texts\<close>



















subsection \<open>What a pass queues\<close>

lemma visitTextNode_pending:
  assumes "visitTextNode U dict api only p i v (ws, pd) = Inr (v', ws', pd')"
  shows "pd' = (if acceptNode only ws p i v \<and> api \<and> translateByDictionary U dict v = Some v
                then setAdd v pd else pd)"
proof -
  obtain t where t: "translateByDictionary U dict v = Some t"
    using translateByDictionary_total by blast
  from assms show ?thesis
    by (auto simp: visitTextNode_def translateTextNode_def t
        translateByOptionalApiSyncPlaceholder_def split: if_splits)
qed

lemma acceptNode_antimono:
  "acceptNode only ws1 p i v \<Longrightarrow> ws \<subseteq> ws1 \<Longrightarrow> acceptNode only ws p i v"
  by (auto simp: acceptNode_def)

lemma walk_queues:
  "walk (visitTextNode U dict api only) path n (ws, pd) = Inr (n', ws', pd') \<Longrightarrow>
     set pd \<subseteq> set pd'
     \<and> (\<forall>s \<in> set pd'. s \<in> set pd
           \<or> (api \<and> (\<exists>(p, i, v) \<in> set (textNodes path n).
                 acceptNode only ws p i v \<and> v = s \<and> translateByDictionary U dict v = Some v)))"
  "walkAll (visitTextNode U dict api only) path ns (ws, pd) = Inr (ns', ws', pd') \<Longrightarrow>
     set pd \<subseteq> set pd'
     \<and> (\<forall>s \<in> set pd'. s \<in> set pd
           \<or> (api \<and> (\<exists>(p, i, v) \<in> set (textNodesAll path ns).
                 acceptNode only ws p i v \<and> v = s \<and> translateByDictionary U dict v = Some v)))"
proof (induction "visitTextNode U dict api only" path n "(ws, pd)"
    and "visitTextNode U dict api only" path ns "(ws, pd)"
    arbitrary: n' ws' pd' ws pd and ns' ws' pd' ws pd rule: walk_walkAll.induct)
  case (1 path i v)
  from 1 obtain v' where v: "visitTextNode U dict api only path i v (ws, pd) = Inr (v', ws', pd')"
    by (auto split: sum.splits)
  from visitTextNode_pending [OF v] show ?case
    by (auto simp: set_setAdd split: if_splits)
next
  case (2 path e children)
  from 2(2) obtain cs' where w: "walkAll (visitTextNode U dict api only) (e # path) children (ws, pd)
      = Inr (cs', ws', pd')"
    by (auto split: sum.splits)
  from 2(1) [OF w] show ?case by simp
next
  case (3 path)
  then show ?case by auto
next
  case (4 path n ns)
  from 4(3) obtain m ws1 pd1 ms where a: "walk (visitTextNode U dict api only) path n (ws, pd) = Inr (m, ws1, pd1)"
    and b: "walkAll (visitTextNode U dict api only) path ns (ws1, pd1) = Inr (ms, ws', pd')"
    by (auto split: sum.splits)
  note A = 4(1) [OF a]
  note B = 4(2) [OF a refl b]
  from walk_marks(1) [OF a] have sub: "ws \<subseteq> ws1" by blast
  have s1: "set pd \<subseteq> set pd'" using A B by blast
  have s2: "s \<in> set pd
       \<or> (api \<and> (\<exists>(p, i, v) \<in> set (textNodesAll path (n # ns)).
             acceptNode only ws p i v \<and> v = s \<and> translateByDictionary U dict v = Some v))"
    if s: "s \<in> set pd'" for s
  proof -
    from B s consider "s \<in> set pd1"
      | "api" "\<exists>(p, i, v) \<in> set (textNodesAll path ns).
                 acceptNode only ws1 p i v \<and> v = s \<and> translateByDictionary U dict v = Some v"
      by blast
    then show ?thesis
    proof cases
      case 1
      with A show ?thesis by fastforce
    next
      case 2
      then obtain p i v where "(p, i, v) \<in> set (textNodesAll path ns)"
        "acceptNode only ws1 p i v" "v = s" "translateByDictionary U dict v = Some v"
        by blast
      with acceptNode_antimono [OF _ sub] 2(1) show ?thesis by fastforce
    qed
  qed
  from s1 s2 show ?case by blast
qed

lemma translateTextNodesIn_queues:
  assumes r: "translateTextNodesIn U dict only pg = Inr pg'"
  shows "set (pendingAsyncTextsSet pg) \<subseteq> set (pendingAsyncTextsSet pg')
    \<and> (\<forall>s \<in> set (pendingAsyncTextsSet pg').
          s \<in> set (pendingAsyncTextsSet pg)
          \<or> (useTranslationApi (currentConfiguration pg)
              \<and> ((\<exists>t \<in> set (bodyTextNodes (document pg')). acceptForApi t \<and> snd (snd t) = s)
                 \<or> (\<exists>(p, i, v) \<in> set (bodyTextNodes (document pg)).
                       acceptNode only (translatedTextNodeWeakSet pg) p i v \<and> v = s
                       \<and> translateByDictionary U dict v = Some v))))"
proof (cases "body (document pg)")
  case None
  with r show ?thesis by (simp add: translateTextNodesIn_def)
next
  case (Some bc)
  obtain b children where bc: "bc = (b, children)" by (cases bc)
  let ?api = "useTranslationApi (currentConfiguration pg)"
  let ?visit = "visitTextNode U dict ?api only"
  from r Some bc obtain children' ws' pd' where
    w: "walkAll ?visit [b, documentElement (document pg)] children
         (translatedTextNodeWeakSet pg, pendingAsyncTextsSet pg) = Inr (children', ws', pd')"
    by (auto simp: translateTextNodesIn_def split: sum.splits)
  note q = walk_queues(2) [OF w]
  let ?pg1 = "pg\<lparr>document := (document pg)\<lparr>body := Some (b, children')\<rparr>,
                   translatedTextNodeWeakSet := ws', pendingAsyncTextsSet := pd'\<rparr>"
  have old: "bodyTextNodes (document pg) = textNodesAll [b, documentElement (document pg)] children"
    by (simp add: bodyTextNodes_def Some bc)
  show ?thesis
  proof (cases ?api)
    case True
    with r Some bc w have pg': "pg' = ?pg1\<lparr>pendingAsyncTextsSet :=
        foldl (\<lambda>s t. setAdd (snd (snd t)) s) pd'
          (filter acceptForApi (textNodesAll [b, documentElement (document pg)] children')),
        pendingAsyncTimer := True\<rparr>"
      by (simp add: translateTextNodesIn_def requestAsyncTranslationForVisibleTextNodes_def)
    have new: "bodyTextNodes (document pg') = textNodesAll [b, documentElement (document pg)] children'"
      by (simp add: pg' bodyTextNodes_def)
    have pend: "set (pendingAsyncTextsSet pg') = set pd'
        \<union> (\<lambda>t. snd (snd t)) ` {t \<in> set (bodyTextNodes (document pg')). acceptForApi t}"
      unfolding new by (simp add: pg' set_foldl_setAdd)
    from q show ?thesis unfolding pend old using True by fastforce
  next
    case False
    with r Some bc w have "pg' = ?pg1" by (simp add: translateTextNodesIn_def)
    with q False show ?thesis by auto
  qed
qed

lemma walk_queues_all:
  "walk (visitTextNode U dict True False) path n (ws, pd) = Inr (n', ws', pd') \<Longrightarrow>
     (\<forall>(p, i, v) \<in> set (textNodes path n).
        acceptNode False {} p i v \<and> translateByDictionary U dict v = Some v \<longrightarrow> v \<in> set pd')"
  "walkAll (visitTextNode U dict True False) path ns (ws, pd) = Inr (ns', ws', pd') \<Longrightarrow>
     (\<forall>(p, i, v) \<in> set (textNodesAll path ns).
        acceptNode False {} p i v \<and> translateByDictionary U dict v = Some v \<longrightarrow> v \<in> set pd')"
proof (induction "visitTextNode U dict True False" path n "(ws, pd)"
    and "visitTextNode U dict True False" path ns "(ws, pd)"
    arbitrary: n' ws' pd' ws pd and ns' ws' pd' ws pd rule: walk_walkAll.induct)
  case (1 path i v)
  from 1 obtain v' where v: "visitTextNode U dict True False path i v (ws, pd) = Inr (v', ws', pd')"
    by (auto split: sum.splits)
  from visitTextNode_pending [OF v] show ?case
    by (auto simp: set_setAdd acceptNode_def)
next
  case (2 path e children)
  from 2(2) obtain cs' where w: "walkAll (visitTextNode U dict True False) (e # path) children (ws, pd)
      = Inr (cs', ws', pd')"
    by (auto split: sum.splits)
  from 2(1) [OF w] show ?case by simp
next
  case (3 path)
  then show ?case by auto
next
  case (4 path n ns)
  from 4(3) obtain m ws1 pd1 ms where
    a: "walk (visitTextNode U dict True False) path n (ws, pd) = Inr (m, ws1, pd1)"
    and b: "walkAll (visitTextNode U dict True False) path ns (ws1, pd1) = Inr (ms, ws', pd')"
    by (auto split: sum.splits)
  from walk_queues(2) [OF b] have "set pd1 \<subseteq> set pd'" by blast
  with 4(1) [OF a] 4(2) [OF a refl b] show ?case by fastforce
qed

lemma translateTextNodesIn_queues_all:
  assumes r: "translateTextNodesIn U dict False pg = Inr pg'"
    and api: "useTranslationApi (currentConfiguration pg)"
  shows "\<forall>(p, i, v) \<in> set (bodyTextNodes (document pg)).
      acceptNode False {} p i v \<and> translateByDictionary U dict v = Some v
        \<longrightarrow> v \<in> set (pendingAsyncTextsSet pg')"
proof (cases "body (document pg)")
  case None
  with r show ?thesis by (simp add: translateTextNodesIn_def)
next
  case (Some bc)
  obtain b children where bc: "bc = (b, children)" by (cases bc)
  from r Some bc api obtain children' ws' pd' where
    w: "walkAll (visitTextNode U dict True False) [b, documentElement (document pg)] children
         (translatedTextNodeWeakSet pg, pendingAsyncTextsSet pg) = Inr (children', ws', pd')"
    by (auto simp: translateTextNodesIn_def split: sum.splits)
  with r Some bc api have "set pd' \<subseteq> set (pendingAsyncTextsSet pg')"
    by (auto simp: translateTextNodesIn_def requestAsyncTranslationForVisibleTextNodes_def
        set_foldl_setAdd)
  with walk_queues_all(2) [OF w] show ?thesis
    by (fastforce simp: bodyTextNodes_def Some bc)
qed

lemma translateTextNodesIn_returns:
  "body (document pg) \<noteq> None \<Longrightarrow> \<exists>pg'. translateTextNodesIn U dict only pg = Inr pg'"
  using translateTextNodesIn_result [of pg _ _ U dict only] by fastforce






lemmas evalWalk = freshPage_def issuesDictionary_def defaultConfiguration_def
  translateTextNodesIn_def visitTextNode_def translateTextNode_def acceptNode_def
  trim_def isWhiteSpace_def translateByOptionalApiSyncPlaceholder_def
  requestAsyncTranslationForVisibleTextNodes_def apiConfiguration_def
  pendingAsyncTimerFires_def setAdd_def acceptForApi_def utf16Length_def looksJapanese_def

section \<open>The dictionary pass: properties\<close>

text \<open>
  C1 (as amended).  The dictionary pass is idempotent on an input whenever its first
  application leaves no phrase of the dictionary behind: if no compiled pattern matches
  anywhere in \<open>translateByDictionary(T)\<close>, then applying \<open>translateByDictionary\<close> to
  that result gives the result again.
\<close>

theorem dictionary_pass_idempotent_when_nothing_remains:
  assumes "translateByDictionary U dict txt = Some once"
    and "\<not> phraseRemains U dict once"
  shows "Option.bind (translateByDictionary U dict txt) (translateByDictionary U dict) =
    translateByDictionary U dict txt"
proof -
  obtain patterns where c: "compileDictionary dict = Some patterns"
    using compileDictionary_eq by blast
  from assms(2) c have "\<not> list_ex (\<lambda>p. matchesFrom U p [] once) patterns"
    by (simp add: phraseRemains_def)
  then have "translateByDictionary U dict once = Some once"
    by (simp add: translateByDictionary_def c foldl_replace_no_match)
  with assms(1) show ?thesis by simp
qed

theorem dictionary_pass_idempotent_witness:
  "translateByDictionary basicLatinJapanese pullRequestEntries (ascii ''Pull Request'')
     = Some puruRiku
   \<and> \<not> phraseRemains basicLatinJapanese pullRequestEntries puruRiku
   \<and> Option.bind
        (translateByDictionary basicLatinJapanese pullRequestEntries (ascii ''Pull Request''))
        (translateByDictionary basicLatinJapanese pullRequestEntries)
      = translateByDictionary basicLatinJapanese pullRequestEntries (ascii ''Pull Request'')"
proof -
  have a: "translateByDictionary basicLatinJapanese pullRequestEntries (ascii ''Pull Request'')
      = Some puruRiku"
    by (simp add: evalDictionary)
  have b: "\<not> phraseRemains basicLatinJapanese pullRequestEntries puruRiku"
    by (simp add: evalDictionary)
  from a b dictionary_pass_idempotent_when_nothing_remains [OF a b] show ?thesis
    by blast
qed

text \<open>
  C1 as stated fails: with the entry for \<open>Pull Request\<close> listed before an entry that
  expands \<open>PR\<close> to \<open>Pull Request\<close>, one pass turns \<open>PR\<close> into \<open>Pull Request\<close> and a second
  pass turns that into the katakana phrase.
\<close>

theorem dictionary_pass_not_idempotent:
  "translateByDictionary basicLatinJapanese
     [(ascii ''Pull Request'', puruRiku), (ascii ''PR'', ascii ''Pull Request'')]
     (ascii ''PR'') = Some (ascii ''Pull Request'')
   \<and> translateByDictionary basicLatinJapanese
     [(ascii ''Pull Request'', puruRiku), (ascii ''PR'', ascii ''Pull Request'')]
     (ascii ''Pull Request'') = Some puruRiku
   \<and> ascii ''Pull Request'' \<noteq> puruRiku"
  by (simp add: evalDictionary)








section \<open>The document: properties\<close>



lemma texts_not_translated:
  assumes "agreesWithExcerpt U"
  shows "translateByDictionary U issuesDictionary (ascii ''Open'') = Some (ascii ''Open'')"
    and "translateByDictionary U issuesDictionary (ascii ''OK'') = Some (ascii ''OK'')"
proof -
  have "translateByDictionary basicLatinJapanese issuesDictionary (ascii ''Open'')
      = Some (ascii ''Open'')"
    "translateByDictionary basicLatinJapanese issuesDictionary (ascii ''OK'')
      = Some (ascii ''OK'')"
    by (simp_all add: evalDictionary issuesDictionary_def)
  then show "translateByDictionary U issuesDictionary (ascii ''Open'') = Some (ascii ''Open'')"
    and "translateByDictionary U issuesDictionary (ascii ''OK'') = Some (ascii ''OK'')"
    using excerpt_translateByDictionary [OF assms, of "ascii ''Open''" issuesDictionary]
      excerpt_translateByDictionary [OF assms, of "ascii ''OK''" issuesDictionary]
    by (simp_all add: evalKnown)
qed

lemma five_open_one_entry:
  assumes "agreesWithExcerpt U"
  shows "map_sum id (\<lambda>pg1. fst (pendingAsyncTimerFires pg1))
     (translateTextNodesIn U issuesDictionary False openPage)
   = Inr [ascii ''Open'']"
  using texts_not_translated(1) [OF assms, unfolded issuesDictionary_def ascii_def kadai_def, simplified]
  by (simp add: evalWalk ascii_def kadai_def openPage_def shouldSkipElement_def plainElement_def
      skippedTags_def codeRegionClasses_def hasAttribute_def getAttribute_def)

lemma short_and_long_text:
  assumes "agreesWithExcerpt U"
  shows "(case translateTextNodesIn U issuesDictionary False
               (twoTextsPage (ascii ''OK'') (ascii ''Open'')) of
      Inl e \<Rightarrow> False
    | Inr pg1 \<Rightarrow>
        (case pendingAsyncTimerFires pg1 of
           (texts, pg2) \<Rightarrow>
             texts = [ascii ''OK'', ascii ''Open'']
             \<and> map_sum id pendingAsyncTextsSet (translateTextNodesIn U issuesDictionary True pg2)
                 = Inr [ascii ''Open'']
             \<and> map_sum id pendingAsyncTextsSet (translateTextNodesIn U issuesDictionary False pg2)
                 = Inr [ascii ''OK'', ascii ''Open'']))"
  using texts_not_translated [OF assms, unfolded issuesDictionary_def ascii_def kadai_def, simplified]
  by (simp add: evalWalk ascii_def kadai_def twoTextsPage_def shouldSkipElement_def plainElement_def
      skippedTags_def codeRegionClasses_def hasAttribute_def getAttribute_def)

text \<open>
  C5 (as amended).  The pending texts never hold a text twice; when the timer fires,
  the first 50 of them are taken, without repetition, and the set is cleared, so the
  rest is dropped for that cycle.  A pass over a document with a body returns and drops
  no pending text.  With the API switched on it queues every text that a text node
  outside skipped elements holds afterwards, if the trimmed text has at least 4 UTF-16
  units and no kana or ideograph, and, when \<open>onlyUntranslated\<close> is false, every text of
  a node that the filter accepts and the dictionary leaves unchanged.  It queues no
  other text: a text that is pending after the pass was pending before, or is such a
  text of at least 4 units, or is the text of a node that the filter of this pass
  accepts (with \<open>onlyUntranslated\<close>, a node not in the WeakSet) and that the dictionary
  leaves unchanged.  A document with the text \<open>Open\<close> in five text nodes gives a batch
  with the one entry \<open>Open\<close>; with \<open>OK\<close> and \<open>Open\<close> in two nodes, both are in the first
  batch, a pass with \<open>onlyUntranslated = true\<close> then queues \<open>Open\<close> only, and a pass
  with \<open>onlyUntranslated = false\<close> queues both (with a dictionary that has no entry for
  them and an engine that agrees with the excerpt).
\<close>

theorem pending_batch_distinct_and_capped:
  assumes d: "distinct (pendingAsyncTextsSet pg)"
  shows "distinct (fst (pendingAsyncTimerFires pg))
    \<and> length (fst (pendingAsyncTimerFires pg)) \<le> 50
    \<and> fst (pendingAsyncTimerFires pg) = take 50 (pendingAsyncTextsSet pg)
    \<and> pendingAsyncTextsSet (snd (pendingAsyncTimerFires pg)) = []
    \<and> (body (document pg) \<noteq> None \<longrightarrow> (\<exists>pg'. translateTextNodesIn U dict only pg = Inr pg'))
    \<and> (\<forall>pg'. translateTextNodesIn U dict only pg = Inr pg' \<longrightarrow>
          distinct (pendingAsyncTextsSet pg')
          \<and> set (pendingAsyncTextsSet pg) \<subseteq> set (pendingAsyncTextsSet pg')
          \<and> (useTranslationApi (currentConfiguration pg) \<longrightarrow>
                pendingAsyncTimer pg'
                \<and> (\<forall>t \<in> set (bodyTextNodes (document pg')).
                      acceptForApi t \<longrightarrow> snd (snd t) \<in> set (pendingAsyncTextsSet pg'))
                \<and> (\<not> only \<longrightarrow>
                      (\<forall>(p, i, v) \<in> set (bodyTextNodes (document pg)).
                         acceptNode False {} p i v \<and> translateByDictionary U dict v = Some v
                           \<longrightarrow> v \<in> set (pendingAsyncTextsSet pg'))))
          \<and> (\<forall>s \<in> set (pendingAsyncTextsSet pg').
                s \<in> set (pendingAsyncTextsSet pg)
                \<or> (useTranslationApi (currentConfiguration pg)
                    \<and> ((\<exists>t \<in> set (bodyTextNodes (document pg')).
                           acceptForApi t \<and> snd (snd t) = s)
                       \<or> (\<exists>(p, i, v) \<in> set (bodyTextNodes (document pg)).
                             acceptNode only (translatedTextNodeWeakSet pg) p i v \<and> v = s
                             \<and> translateByDictionary U dict v = Some v)))))
    \<and> (agreesWithExcerpt U \<longrightarrow>
          map_sum id (\<lambda>pg1. fst (pendingAsyncTimerFires pg1))
            (translateTextNodesIn U issuesDictionary False openPage)
          = Inr [ascii ''Open'']
        \<and> (case translateTextNodesIn U issuesDictionary False
                   (twoTextsPage (ascii ''OK'') (ascii ''Open'')) of
              Inl e \<Rightarrow> False
            | Inr pg1 \<Rightarrow>
                (case pendingAsyncTimerFires pg1 of
                   (texts, pg2) \<Rightarrow>
                     texts = [ascii ''OK'', ascii ''Open'']
                     \<and> map_sum id pendingAsyncTextsSet
                          (translateTextNodesIn U issuesDictionary True pg2)
                         = Inr [ascii ''Open'']
                     \<and> map_sum id pendingAsyncTextsSet
                          (translateTextNodesIn U issuesDictionary False pg2)
                         = Inr [ascii ''OK'', ascii ''Open''])))"
proof -
  have fire: "distinct (fst (pendingAsyncTimerFires pg))
    \<and> length (fst (pendingAsyncTimerFires pg)) \<le> 50
    \<and> fst (pendingAsyncTimerFires pg) = take 50 (pendingAsyncTextsSet pg)
    \<and> pendingAsyncTextsSet (snd (pendingAsyncTimerFires pg)) = []"
    using d by (simp add: pendingAsyncTimerFires_def)
  have returns: "body (document pg) \<noteq> None \<longrightarrow>
      (\<exists>pg'. translateTextNodesIn U dict only pg = Inr pg')"
    using translateTextNodesIn_returns [of pg U dict only] by blast
  have queued: "distinct (pendingAsyncTextsSet pg')
          \<and> (useTranslationApi (currentConfiguration pg) \<longrightarrow>
                pendingAsyncTimer pg'
                \<and> (\<forall>t \<in> set (bodyTextNodes (document pg')).
                      acceptForApi t \<longrightarrow> snd (snd t) \<in> set (pendingAsyncTextsSet pg')))"
    if r: "translateTextNodesIn U dict only pg = Inr pg'" for pg'
  proof (cases "body (document pg)")
    case None
    with r show ?thesis by (simp add: translateTextNodesIn_def)
  next
    case (Some bc)
    obtain b children where bc: "bc = (b, children)" by (cases bc)
    let ?visit = "visitTextNode U dict (useTranslationApi (currentConfiguration pg)) only"
    from r Some bc obtain children' ws' pd' where
      w: "walkAll ?visit [b, documentElement (document pg)] children
           (translatedTextNodeWeakSet pg, pendingAsyncTextsSet pg) = Inr (children', ws', pd')"
      by (auto simp: translateTextNodesIn_def split: sum.splits)
    have dpd: "distinct pd'"
      using walk_invariant(2) [of ?visit "\<lambda>s. distinct (snd s)", OF _ w] visitTextNode_distinct d
      by fastforce
    let ?pg1 = "pg\<lparr>document := (document pg)\<lparr>body := Some (b, children')\<rparr>,
                     translatedTextNodeWeakSet := ws', pendingAsyncTextsSet := pd'\<rparr>"
    show ?thesis
    proof (cases "useTranslationApi (currentConfiguration pg)")
      case True
      with r Some bc w have "pg' = ?pg1\<lparr>pendingAsyncTextsSet :=
          foldl (\<lambda>s t. setAdd (snd (snd t)) s) pd'
            (filter acceptForApi (textNodesAll [b, documentElement (document pg)] children')),
          pendingAsyncTimer := True\<rparr>"
        by (simp add: translateTextNodesIn_def requestAsyncTranslationForVisibleTextNodes_def)
      then show ?thesis
        using dpd by (auto simp: distinct_foldl_setAdd set_foldl_setAdd bodyTextNodes_def)
    next
      case False
      with r Some bc w have "pg' = ?pg1" by (simp add: translateTextNodesIn_def)
      with False dpd show ?thesis by simp
    qed
  qed
  have all: "\<not> only \<longrightarrow>
        (\<forall>(p, i, v) \<in> set (bodyTextNodes (document pg)).
           acceptNode False {} p i v \<and> translateByDictionary U dict v = Some v
             \<longrightarrow> v \<in> set (pendingAsyncTextsSet pg'))"
    if r: "translateTextNodesIn U dict only pg = Inr pg'"
      and api: "useTranslationApi (currentConfiguration pg)" for pg'
  proof
    assume "\<not> only"
    with r have "translateTextNodesIn U dict False pg = Inr pg'" by simp
    from translateTextNodesIn_queues_all [OF this api]
    show "\<forall>(p, i, v) \<in> set (bodyTextNodes (document pg)).
           acceptNode False {} p i v \<and> translateByDictionary U dict v = Some v
             \<longrightarrow> v \<in> set (pendingAsyncTextsSet pg')" .
  qed
  have pass: "distinct (pendingAsyncTextsSet pg')
          \<and> set (pendingAsyncTextsSet pg) \<subseteq> set (pendingAsyncTextsSet pg')
          \<and> (useTranslationApi (currentConfiguration pg) \<longrightarrow>
                pendingAsyncTimer pg'
                \<and> (\<forall>t \<in> set (bodyTextNodes (document pg')).
                      acceptForApi t \<longrightarrow> snd (snd t) \<in> set (pendingAsyncTextsSet pg'))
                \<and> (\<not> only \<longrightarrow>
                      (\<forall>(p, i, v) \<in> set (bodyTextNodes (document pg)).
                         acceptNode False {} p i v \<and> translateByDictionary U dict v = Some v
                           \<longrightarrow> v \<in> set (pendingAsyncTextsSet pg'))))
          \<and> (\<forall>s \<in> set (pendingAsyncTextsSet pg').
                s \<in> set (pendingAsyncTextsSet pg)
                \<or> (useTranslationApi (currentConfiguration pg)
                    \<and> ((\<exists>t \<in> set (bodyTextNodes (document pg')).
                           acceptForApi t \<and> snd (snd t) = s)
                       \<or> (\<exists>(p, i, v) \<in> set (bodyTextNodes (document pg)).
                             acceptNode only (translatedTextNodeWeakSet pg) p i v \<and> v = s
                             \<and> translateByDictionary U dict v = Some v))))"
    if r: "translateTextNodesIn U dict only pg = Inr pg'" for pg'
    using queued [OF r] all [OF r] translateTextNodesIn_queues [OF r]
    by (intro conjI impI) (elim conjE, assumption | simp)+
  have examples: "agreesWithExcerpt U \<longrightarrow>
          map_sum id (\<lambda>pg1. fst (pendingAsyncTimerFires pg1))
            (translateTextNodesIn U issuesDictionary False openPage)
          = Inr [ascii ''Open'']
        \<and> (case translateTextNodesIn U issuesDictionary False
                   (twoTextsPage (ascii ''OK'') (ascii ''Open'')) of
              Inl e \<Rightarrow> False
            | Inr pg1 \<Rightarrow>
                (case pendingAsyncTimerFires pg1 of
                   (texts, pg2) \<Rightarrow>
                     texts = [ascii ''OK'', ascii ''Open'']
                     \<and> map_sum id pendingAsyncTextsSet
                          (translateTextNodesIn U issuesDictionary True pg2)
                         = Inr [ascii ''Open'']
                     \<and> map_sum id pendingAsyncTextsSet
                          (translateTextNodesIn U issuesDictionary False pg2)
                         = Inr [ascii ''OK'', ascii ''Open'']))"
    using five_open_one_entry [of U] short_and_long_text [of U] by blast
  from fire returns pass examples show ?thesis
    by (intro conjI allI impI) (elim conjE, assumption | blast)+
qed

theorem pending_batch_witness:
  "distinct (pendingAsyncTextsSet openPage)
   \<and> agreesWithExcerpt basicLatinJapanese
   \<and> body (document openPage) \<noteq> None
   \<and> useTranslationApi (currentConfiguration openPage)
   \<and> distinct (fst (pendingAsyncTimerFires openPage))
   \<and> length (fst (pendingAsyncTimerFires openPage)) \<le> 50
   \<and> pendingAsyncTextsSet (snd (pendingAsyncTimerFires openPage)) = []
   \<and> (\<exists>pg'. translateTextNodesIn basicLatinJapanese issuesDictionary False openPage = Inr pg'
         \<and> distinct (pendingAsyncTextsSet pg') \<and> pendingAsyncTimer pg')
   \<and> map_sum id (\<lambda>pg1. fst (pendingAsyncTimerFires pg1))
        (translateTextNodesIn basicLatinJapanese issuesDictionary False openPage)
      = Inr [ascii ''Open'']"
proof -
  have h: "distinct (pendingAsyncTextsSet openPage)"
    by (simp add: openPage_def freshPage_def)
  have b: "body (document openPage) \<noteq> None"
    by (simp add: openPage_def freshPage_def)
  have a: "useTranslationApi (currentConfiguration openPage)"
    by (simp add: openPage_def apiConfiguration_def)
  note t = pending_batch_distinct_and_capped [OF h, of basicLatinJapanese issuesDictionary False]
  from t b obtain pg' where
    r: "translateTextNodesIn basicLatinJapanese issuesDictionary False openPage = Inr pg'"
    by blast
  with t a have "distinct (pendingAsyncTextsSet pg') \<and> pendingAsyncTimer pg'" by blast
  with r h b a agreesWithExcerpt_self t show ?thesis by blast
qed

lemma paragraph_not_skipped:
  "\<not> shouldSkipElement [plainElement 3 ''p'', plainElement 2 ''body'', plainElement 0 ''html'']"
  by (simp add: shouldSkipElement_def plainElement_def skippedTags_def codeRegionClasses_def
      hasAttribute_def getAttribute_def)


text \<open>
  C5 as stated fails for a short text: on a page with 51 texts of two characters the
  last one, \<open>OK\<close>, is pending after the first pass, is not among the 50 texts of the
  batch, and is not pending after the next pass with \<open>onlyUntranslated = true\<close>,
  although its node still holds it.
\<close>

theorem short_text_not_queued_again:
  "(case translateTextNodesIn basicLatinJapanese issuesDictionary False crowdedPage of
      Inl e \<Rightarrow> False
    | Inr pg1 \<Rightarrow>
        (case pendingAsyncTimerFires pg1 of
           (texts, pg2) \<Rightarrow>
             ascii ''OK'' \<in> set (pendingAsyncTextsSet pg1)
             \<and> length texts = 50
             \<and> ascii ''OK'' \<notin> set texts
             \<and> (case translateTextNodesIn basicLatinJapanese issuesDictionary True pg2 of
                   Inl e \<Rightarrow> False
                 | Inr pg3 \<Rightarrow>
                     document pg3 = document crowdedPage
                     \<and> ascii ''OK'' \<notin> set (pendingAsyncTextsSet pg3))))"
  by (simp add: evalWalk evalDictionary crowdedPage_def paragraph_not_skipped)

text \<open>
  C6.  Every text node that the filter of \<open>translateTextNodesIn\<close> accepts is in the
  WeakSet after the run, whether or not its text changed, and a run with
  \<open>onlyUntranslated = true\<close> right after a run leaves the document and the WeakSet as
  they are: it writes no node value.
\<close>

theorem text_nodes_processed_once:
  assumes b: "body (document pg) \<noteq> None"
  shows "\<exists>pg1. translateTextNodesIn U dict only pg = Inr pg1
    \<and> (\<forall>(p, i, v) \<in> set (bodyTextNodes (document pg)).
          acceptNode only (translatedTextNodeWeakSet pg) p i v \<longrightarrow> i \<in> translatedTextNodeWeakSet pg1)
    \<and> (\<exists>pg2. translateTextNodesIn U dict True pg1 = Inr pg2
          \<and> document pg2 = document pg1
          \<and> translatedTextNodeWeakSet pg2 = translatedTextNodeWeakSet pg1)"
proof -
  from b obtain be children where b': "body (document pg) = Some (be, children)" by auto
  from translateTextNodesIn_result [OF b', of U dict only] obtain pg1 children' ws' pd' where
    r: "translateTextNodesIn U dict only pg = Inr pg1"
    and w: "walkAll (visitTextNode U dict (useTranslationApi (currentConfiguration pg)) only)
         [be, documentElement (document pg)] children
         (translatedTextNodeWeakSet pg, pendingAsyncTextsSet pg) = Inr (children', ws', pd')"
    and d: "document pg1 = (document pg)\<lparr>body := Some (be, children')\<rparr>"
    and ws: "translatedTextNodeWeakSet pg1 = ws'"
    and c: "currentConfiguration pg1 = currentConfiguration pg"
    by blast
  note m = walk_marks(2) [OF w]
  have first: "\<forall>(p, i, v) \<in> set (bodyTextNodes (document pg)).
          acceptNode only (translatedTextNodeWeakSet pg) p i v \<longrightarrow> i \<in> translatedTextNodeWeakSet pg1"
    using m by (simp add: bodyTextNodes_def b' ws)
  have b1: "body (document pg1) = Some (be, children')" by (simp add: d)
  from translateTextNodesIn_result [OF b1, of U dict True] obtain pg2 children2 ws2 pd2 where
    r2: "translateTextNodesIn U dict True pg1 = Inr pg2"
    and w2: "walkAll (visitTextNode U dict (useTranslationApi (currentConfiguration pg1)) True)
         [be, documentElement (document pg1)] children'
         (translatedTextNodeWeakSet pg1, pendingAsyncTextsSet pg1) = Inr (children2, ws2, pd2)"
    and d2: "document pg2 = (document pg1)\<lparr>body := Some (be, children2)\<rparr>"
    and ws2: "translatedTextNodeWeakSet pg2 = ws2"
    by blast
  have "walkAll (visitTextNode U dict (useTranslationApi (currentConfiguration pg1)) True)
         [be, documentElement (document pg1)] children'
         (translatedTextNodeWeakSet pg1, pendingAsyncTextsSet pg1)
      = Inr (children', translatedTextNodeWeakSet pg1, pendingAsyncTextsSet pg1)"
    using m by (intro walk_nothing_to_do(2)) (simp add: ws d)
  with w2 have "children2 = children'" "ws2 = translatedTextNodeWeakSet pg1" by simp_all
  with d2 ws2 d have "document pg2 = document pg1" "translatedTextNodeWeakSet pg2 = translatedTextNodeWeakSet pg1"
    by simp_all
  with r r2 first show ?thesis by blast
qed


theorem text_nodes_processed_once_witness:
  "body (document issuesPage) \<noteq> None
   \<and> (\<exists>pg1. translateTextNodesIn basicLatinJapanese issuesDictionary False issuesPage = Inr pg1
        \<and> (\<exists>pg2. translateTextNodesIn basicLatinJapanese issuesDictionary True pg1 = Inr pg2
              \<and> document pg2 = document pg1
              \<and> translatedTextNodeWeakSet pg2 = translatedTextNodeWeakSet pg1))"
proof -
  have h: "body (document issuesPage) \<noteq> None"
    by (simp add: issuesPage_def freshPage_def)
  from h text_nodes_processed_once [OF h, of basicLatinJapanese issuesDictionary False]
  show ?thesis by blast
qed


















text \<open>
  C10.  When the stored configuration has \<open>isEnabledOnGithub = false\<close>, initialisation
  sets the \<open>lang\<close> attribute of the root element to \<open>ja\<close> and stores the
  configuration, and does nothing else: the rest of the document is as before and no
  observer or listener is registered.  The attribute is set before the configuration is
  read, also when reading it fails.
\<close>

theorem disabled_engine_sets_lang_only:
  assumes "\<not> isEnabledOnGithub config"
  shows "initializeJapaneseTranslator U dict (Inr config) pg =
      pg\<lparr>document := (document pg)\<lparr>documentElement :=
             setAttribute ''lang'' (ascii ''ja'') (documentElement (document pg))\<rparr>,
         currentConfiguration := config\<rparr>
    \<and> getAttribute (documentElement (document (initializeJapaneseTranslator U dict (Inr config) pg)))
         ''lang'' = Some (ascii ''ja'')
    \<and> documentElement (document (initializeJapaneseTranslator U dict (Inl e) pg))
         = setAttribute ''lang'' (ascii ''ja'') (documentElement (document pg))"
  using assms by (simp add: initializeJapaneseTranslator_def getAttribute_setAttribute)

theorem disabled_engine_sets_lang_only_witness:
  "\<not> isEnabledOnGithub (defaultConfiguration\<lparr>isEnabledOnGithub := False\<rparr>)
   \<and> initializeJapaneseTranslator basicLatinJapanese issuesDictionary
        (Inr (defaultConfiguration\<lparr>isEnabledOnGithub := False\<rparr>)) issuesPage
      = issuesPage\<lparr>document := (document issuesPage)\<lparr>documentElement :=
             setAttribute ''lang'' (ascii ''ja'') (documentElement (document issuesPage))\<rparr>,
         currentConfiguration := defaultConfiguration\<lparr>isEnabledOnGithub := False\<rparr>\<rparr>
   \<and> body (document (initializeJapaneseTranslator basicLatinJapanese issuesDictionary
        (Inr (defaultConfiguration\<lparr>isEnabledOnGithub := False\<rparr>)) issuesPage))
      = body (document issuesPage)"
proof -
  have h: "\<not> isEnabledOnGithub (defaultConfiguration\<lparr>isEnabledOnGithub := False\<rparr>)"
    by simp
  from h disabled_engine_sets_lang_only [OF h, of basicLatinJapanese issuesDictionary issuesPage]
  show ?thesis by simp
qed

end
